theory Spec2Isabelle
  imports Complex_Main "HOL-Library.Word" "HOL-Library.Sublist"
begin

unbundle bit_operations_syntax

text \<open>
  A model of the subtitle pipeline of arib2bdnxml: the timecode formatter of
  \<^verbatim>\<open>bdn_xml_generator.cpp\<close>, the range trimmer and the event loop of \<^verbatim>\<open>main.cpp\<close>, and the
  compositor of \<^verbatim>\<open>FFmpegWrapper::get_next_subtitle_frame\<close>. The demultiplexer, the caption
  decoder and the PNG encoder are outside the model: the stream is the list of its decoded
  frames, and the outcome of writing a file is a parameter.
\<close>

section \<open>Machine arithmetic of the C++ sources\<close>

subsection \<open>Double precision arithmetic\<close>

text \<open>
  A finite value of type \<^verbatim>\<open>double\<close> is modelled by the real number it denotes, and each
  operation \<^verbatim>\<open>+\<close>, \<^verbatim>\<open>-\<close>, \<^verbatim>\<open>*\<close>, \<^verbatim>\<open>/\<close> returns the exact result rounded to the nearest
  \<^verbatim>\<open>double\<close>: a number with a significand of 53 bits, or a multiple of \<open>2 ^ - 1074\<close> below
  \<open>2 ^ - 1022\<close>, ties to the even significand. So \<open>0.3 * 25\<close> is \<open>7.5\<close> for the \<^verbatim>\<open>double\<close>
  nearest to 0.3, which is below 0.3, and \<open>1.0 + 1050 / 1000.0\<close> is below \<open>2.05\<close>.

  Infinities and NaN are outside the model. The rounding has no largest exponent: a result
  beyond the largest \<^verbatim>\<open>double\<close> stays a finite number where the machine returns an
  infinity. In the timeline such a value can only arise from the product of a time and the
  frame rate, which \<^verbatim>\<open>time_to_tc\<close> converts to \<^verbatim>\<open>int\<close>: the conversion is undefined in both
  cases.
\<close>

definition round_half_even :: "real \<Rightarrow> int" where
  "round_half_even v =
     (let f = \<lfloor>v\<rfloor>; d = v - of_int f
      in if d < 1 / 2 then f else if 1 / 2 < d then f + 1 else if even f then f else f + 1)"

text \<open>The power of two \<open>p\<close> with \<open>p \<le> v < 2 * p\<close> for a positive \<open>v\<close>: searched upwards from 1
  when \<open>1 \<le> v\<close>, downwards otherwise.\<close>

function binade_up :: "real \<Rightarrow> real \<Rightarrow> real" where
  "binade_up v p = (if 0 < p \<and> 2 * p \<le> v then binade_up v (2 * p) else p)"
  by pat_completeness auto
termination
proof (relation "measure (\<lambda>(v, p). nat \<lfloor>v / p\<rfloor>)")
  show "wf (measure (\<lambda>(v, p). nat \<lfloor>v / p\<rfloor>))" by simp
next
  fix v p :: real
  assume a: "0 < p \<and> 2 * p \<le> v"
  then have "2 \<le> v / p" by (simp add: pos_le_divide_eq)
  then have "v / (2 * p) + 1 \<le> v / p" using a by (simp add: field_simps)
  then have "\<lfloor>v / (2 * p) + 1\<rfloor> \<le> \<lfloor>v / p\<rfloor>" by (rule floor_mono)
  then have "\<lfloor>v / (2 * p)\<rfloor> + 1 \<le> \<lfloor>v / p\<rfloor>" by simp
  moreover have "0 \<le> v / (2 * p)" using a by simp
  then have "0 \<le> \<lfloor>v / (2 * p)\<rfloor>" by (simp only: zero_le_floor)
  ultimately have "nat \<lfloor>v / (2 * p)\<rfloor> < nat \<lfloor>v / p\<rfloor>" by linarith
  then show "((v, 2 * p), (v, p)) \<in> measure (\<lambda>(v, p). nat \<lfloor>v / p\<rfloor>)" by simp
qed

function binade_down :: "real \<Rightarrow> real \<Rightarrow> real" where
  "binade_down v p = (if 0 < v \<and> v < p then binade_down v (p / 2) else p)"
  by pat_completeness auto
termination
proof (relation "measure (\<lambda>(v, p). nat \<lceil>p / v\<rceil>)")
  show "wf (measure (\<lambda>(v, p). nat \<lceil>p / v\<rceil>))" by simp
next
  fix v p :: real
  assume a: "0 < v \<and> v < p"
  define n where "n = \<lceil>p / v\<rceil>"
  have "1 < p / v" using a by simp
  then have "1 < n" unfolding n_def by (simp add: less_ceiling_iff)
  then have n2: "2 \<le> n" by simp
  have "p / v \<le> of_int n" unfolding n_def by (rule le_of_int_ceiling)
  then have "p / v / 2 \<le> of_int n / 2" by simp
  also have "\<dots> \<le> of_int (n - 1)" using n2 by simp
  finally have "p / 2 / v \<le> of_int (n - 1)" by simp
  then have "\<lceil>p / 2 / v\<rceil> \<le> n - 1" by (simp only: ceiling_le_iff)
  then have "nat \<lceil>p / 2 / v\<rceil> < nat n" using n2 by linarith
  then show "((v, p / 2), (v, p)) \<in> measure (\<lambda>(v, p). nat \<lceil>p / v\<rceil>)"
    by (simp add: n_def)
qed

declare binade_up.simps [simp del] binade_down.simps [simp del]

definition binade64 :: "real \<Rightarrow> real" where
  "binade64 v = (if 1 \<le> v then binade_up v 1 else binade_down v 1)"

text \<open>The distance between neighbouring values of \<^verbatim>\<open>double\<close> in the binade that starts at
  \<open>p\<close>, the multiple of \<open>ulp\<close> nearest to \<open>v\<close>, and the \<^verbatim>\<open>double\<close> nearest to \<open>v\<close>.\<close>

definition double_ulp :: "real \<Rightarrow> real" where
  "double_ulp p = (if p < 1 / 2 ^ 1022 then 1 / 2 ^ 1074 else p / 2 ^ 52)"

definition round_to_ulp :: "real \<Rightarrow> real \<Rightarrow> real" where
  "round_to_ulp ulp v = sgn v * (of_int (round_half_even (\<bar>v\<bar> / ulp)) * ulp)"

definition double_round :: "real \<Rightarrow> real" where
  "double_round v = (if v = 0 then 0 else round_to_ulp (double_ulp (binade64 \<bar>v\<bar>)) v)"

definition dadd :: "real \<Rightarrow> real \<Rightarrow> real" where
  "dadd a b = double_round (a + b)"

definition dsub :: "real \<Rightarrow> real \<Rightarrow> real" where
  "dsub a b = double_round (a - b)"

definition dmul :: "real \<Rightarrow> real \<Rightarrow> real" where
  "dmul a b = double_round (a * b)"

definition ddiv :: "real \<Rightarrow> real \<Rightarrow> real" where
  "ddiv a b = double_round (a / b)"

text \<open>The conversion of an integer to \<^verbatim>\<open>double\<close>, and the value of a decimal literal.\<close>

definition int_to_double :: "int \<Rightarrow> real" where
  "int_to_double k = double_round (of_int k)"

definition double_literal :: "real \<Rightarrow> real" where
  "double_literal v = double_round v"

subsection \<open>Integers\<close>

text \<open>
  The values of type \<^verbatim>\<open>int\<close> are integers that wrap around at 32 bits. A division by
  zero, a division that overflows and a conversion of a \<^verbatim>\<open>double\<close> outside the range of
  \<^verbatim>\<open>int\<close> have no defined result in C++: they are values of \<open>error\<close>, as is the exception
  \<^verbatim>\<open>std::length_error\<close> of a vector resized to a negative length.
\<close>

datatype error = DivByZero | IntOverflow | CastOutOfRange | LengthError

definition INT_MAX :: int where
  "INT_MAX = 2147483647"

definition INT_MIN :: int where
  "INT_MIN = - 2147483648"

text \<open>Two's complement wrap-around of a mathematical integer into the range of \<^verbatim>\<open>int\<close>.\<close>

definition wrap32 :: "int \<Rightarrow> int" where
  "wrap32 k = (k + 2147483648) mod 4294967296 - 2147483648"

definition mul_int :: "int \<Rightarrow> int \<Rightarrow> int" where
  "mul_int a b = wrap32 (a * b)"

definition add_int :: "int \<Rightarrow> int \<Rightarrow> int" where
  "add_int a b = wrap32 (a + b)"

text \<open>The operators \<^verbatim>\<open>/\<close> and \<^verbatim>\<open>%\<close> on \<^verbatim>\<open>int\<close>: the quotient is truncated towards
  zero and the remainder has the sign of the dividend.\<close>

definition quot_int :: "int \<Rightarrow> int \<Rightarrow> error + int" where
  "quot_int a b =
     (if b = 0 then Inl DivByZero
      else if a = INT_MIN \<and> b = - 1 then Inl IntOverflow
      else Inr (sgn a * sgn b * (\<bar>a\<bar> div \<bar>b\<bar>)))"

definition rem_int :: "int \<Rightarrow> int \<Rightarrow> error + int" where
  "rem_int a b =
     (if b = 0 then Inl DivByZero
      else if a = INT_MIN \<and> b = - 1 then Inl IntOverflow
      else Inr (sgn a * (\<bar>a\<bar> mod \<bar>b\<bar>)))"

text \<open>\<^verbatim>\<open>std::round\<close>: to the nearest integral value, halfway cases away from zero.\<close>

definition c_round :: "real \<Rightarrow> real" where
  "c_round x = (if 0 \<le> x then of_int \<lfloor>x + 1 / 2\<rfloor> else of_int \<lceil>x - 1 / 2\<rceil>)"

text \<open>\<^verbatim>\<open>static_cast<int>\<close> of a \<^verbatim>\<open>double\<close>: the fraction is discarded; the result is
  undefined when the truncated value is not an \<^verbatim>\<open>int\<close>.\<close>

definition to_int :: "real \<Rightarrow> error + int" where
  "to_int x =
     (let t = (if 0 \<le> x then \<lfloor>x\<rfloor> else \<lceil>x\<rceil>)
      in if INT_MIN \<le> t \<and> t \<le> INT_MAX then Inr t else Inl CastOutOfRange)"

text \<open>Sequencing of computations that may fail: the first error ends the computation.\<close>

definition and_then :: "error + 'a \<Rightarrow> ('a \<Rightarrow> error + 'b) \<Rightarrow> error + 'b" where
  "and_then m f = (case m of Inl e \<Rightarrow> Inl e | Inr x \<Rightarrow> f x)"

section \<open>The timecode formatter (\<^verbatim>\<open>bdn_xml_generator.cpp\<close>)\<close>

text \<open>Decimal output of an \<^verbatim>\<open>int\<close> through an \<^verbatim>\<open>ostringstream\<close> with fill character
  \<^verbatim>\<open>'0'\<close> and a minimal field width: the text is padded on the left.\<close>

definition digit_char :: "nat \<Rightarrow> char" where
  "digit_char d = ''0123456789'' ! d"

fun digits :: "nat \<Rightarrow> string" where
  "digits n = (if n < 10 then [digit_char n] else digits (n div 10) @ [digit_char (n mod 10)])"

declare digits.simps [simp del]

definition show_int :: "int \<Rightarrow> string" where
  "show_int k = (if k < 0 then CHR ''-'' # digits (nat (- k)) else digits (nat k))"

definition setw_fill0 :: "nat \<Rightarrow> int \<Rightarrow> string" where
  "setw_fill0 w k = replicate (w - length (show_int k)) CHR ''0'' @ show_int k"

definition format_tc :: "int \<Rightarrow> int \<Rightarrow> int \<Rightarrow> int \<Rightarrow> string" where
  "format_tc hours minutes seconds frames =
     setw_fill0 2 hours @ '':'' @ setw_fill0 2 minutes @ '':'' @
     setw_fill0 2 seconds @ '':'' @ setw_fill0 2 frames"

text \<open>The body of \<^verbatim>\<open>time_to_tc\<close> in three parts: the successive divisions of the
  total frame count, the two carry branches, and the call of \<^verbatim>\<open>format_tc\<close>.\<close>

definition tc_divisions :: "real \<Rightarrow> real \<Rightarrow> error + (int \<times> int \<times> int \<times> int)" where
  "tc_divisions seconds0 fps =
     (let seconds = (if seconds0 < 0 then 0 else seconds0) in
      and_then (to_int (c_round (dmul seconds fps))) (\<lambda>total_frames.
      and_then (to_int (c_round fps)) (\<lambda>fps_int.
      let frames_per_hour = mul_int fps_int 3600;
          frames_per_minute = mul_int fps_int 60 in
      and_then (quot_int total_frames frames_per_hour) (\<lambda>hours.
      and_then (rem_int total_frames frames_per_hour) (\<lambda>remaining_frames.
      and_then (quot_int remaining_frames frames_per_minute) (\<lambda>minutes.
      and_then (rem_int remaining_frames frames_per_minute) (\<lambda>remaining_frames'.
      and_then (quot_int remaining_frames' fps_int) (\<lambda>secs.
      and_then (rem_int remaining_frames' fps_int) (\<lambda>frames.
      Inr (hours, minutes, secs, frames))))))))))"

definition tc_carry :: "int \<times> int \<times> int \<times> int \<Rightarrow> error + (int \<times> int \<times> int \<times> int)" where
  "tc_carry = (\<lambda>(hours, minutes, secs, frames).
      and_then (if 60 \<le> secs
                then and_then (quot_int secs 60) (\<lambda>q.
                     and_then (rem_int secs 60) (\<lambda>r. Inr (add_int minutes q, r)))
                else Inr (minutes, secs)) (\<lambda>(minutes', secs').
      and_then (if 60 \<le> minutes'
                then and_then (quot_int minutes' 60) (\<lambda>q.
                     and_then (rem_int minutes' 60) (\<lambda>r. Inr (add_int hours q, r)))
                else Inr (hours, minutes')) (\<lambda>(hours', minutes'').
      Inr (hours', minutes'', secs', frames))))"

definition tc_fields :: "real \<Rightarrow> real \<Rightarrow> error + (int \<times> int \<times> int \<times> int)" where
  "tc_fields seconds fps = and_then (tc_divisions seconds fps) tc_carry"

definition time_to_tc :: "real \<Rightarrow> real \<Rightarrow> error + string" where
  "time_to_tc seconds fps =
     and_then (tc_fields seconds fps) (\<lambda>(hours, minutes, secs, frames).
       Inr (format_tc hours minutes secs frames))"

definition adjust_timestamp :: "real \<Rightarrow> real \<Rightarrow> real" where
  "adjust_timestamp timestamp start_time = dsub timestamp start_time"

section \<open>Bitmaps (\<^verbatim>\<open>bitmap_processor.hpp\<close>)\<close>

text \<open>The pixels are RGBA, four bytes each, row after row.\<close>

record BitmapData =
  bm_data :: "8 word list"
  bm_width :: int
  bm_height :: int
  bm_stride :: int

section \<open>The frame source (\<^verbatim>\<open>ffmpeg_wrapper.hpp\<close>, \<^verbatim>\<open>ffmpeg_wrapper.cpp\<close>)\<close>

text \<open>A decoded frame. The field \<open>bitmap\<close> is a pointer in the source: \<open>None\<close> is the null
  pointer, which marks a clear command.\<close>

record SubtitleFrame =
  bitmap :: "BitmapData option"
  pts :: int
  timestamp :: real
  start_time :: real
  end_time :: real
  pos_x :: int
  pos_y :: int

text \<open>The values \<^verbatim>\<open>get_next_subtitle_frame\<close> stores into its argument before it reads
  the stream.\<close>

definition empty_frame :: SubtitleFrame where
  "empty_frame =
     \<lparr>bitmap = None, pts = 0, timestamp = 0, start_time = 0, end_time = 0, pos_x = 0, pos_y = 0\<rparr>"

definition AV_NOPTS_VALUE :: int where
  "AV_NOPTS_VALUE = - 9223372036854775808"

text \<open>The time base is the rational \<open>num / den\<close> of the stream; \<^verbatim>\<open>av_q2d\<close> of FFmpeg is
  \<^verbatim>\<open>num / (double) den\<close> (a time base with the denominator 0 is outside the model). The
  product \<^verbatim>\<open>pts * av_q2d(time_base)\<close> converts the 64-bit \<^verbatim>\<open>pts\<close> to \<^verbatim>\<open>double\<close>.\<close>

definition av_q2d :: "int \<times> int \<Rightarrow> real" where
  "av_q2d a = ddiv (of_int (fst a)) (of_int (snd a))"

definition pts_to_seconds :: "int \<Rightarrow> int \<times> int \<Rightarrow> real" where
  "pts_to_seconds p time_base =
     (if p = AV_NOPTS_VALUE then 0
      else dmul (int_to_double p) (av_q2d time_base))"

text \<open>The display times of a decoded subtitle, from the base timestamp of its packet and
  the two offsets in milliseconds; \<^verbatim>\<open>0xFFFFFFFF\<close> marks an offset that is not set.\<close>

definition display_times :: "real \<Rightarrow> 32 word \<Rightarrow> 32 word \<Rightarrow> real \<times> real" where
  "display_times base_timestamp start_display_time end_display_time =
     (if start_display_time \<noteq> 0xFFFFFFFF \<and> end_display_time \<noteq> 0xFFFFFFFF
      then (dadd base_timestamp (ddiv (real (unat start_display_time)) 1000),
            dadd base_timestamp (ddiv (real (unat end_display_time)) 1000))
      else (base_timestamp, base_timestamp))"

text \<open>The frame \<^verbatim>\<open>get_next_subtitle_frame\<close> returns for a decoded subtitle: \<open>composite\<close>
  is the composite bitmap with its top left corner, or \<open>None\<close> for a subtitle without
  rectangles (a clear command).\<close>

definition decoded_frame ::
  "(BitmapData \<times> int \<times> int) option \<Rightarrow> int \<Rightarrow> int \<times> int \<Rightarrow> 32 word \<Rightarrow> 32 word \<Rightarrow> SubtitleFrame" where
  "decoded_frame composite p time_base start_display_time end_display_time =
     (let base_timestamp = (if p \<noteq> AV_NOPTS_VALUE then pts_to_seconds p time_base else 0);
          (start, end) = display_times base_timestamp start_display_time end_display_time
      in case composite of
           Some (bm, min_x, min_y) \<Rightarrow>
             \<lparr>bitmap = Some bm, pts = p, timestamp = base_timestamp,
              start_time = start, end_time = end, pos_x = min_x, pos_y = min_y\<rparr>
         | None \<Rightarrow>
             \<lparr>bitmap = None, pts = p, timestamp = base_timestamp,
              start_time = start, end_time = end, pos_x = 0, pos_y = 0\<rparr>)"

text \<open>The stream as the list of the frames still to be decoded. The call returns whether a
  frame was read, the frame, and the rest of the stream.\<close>

fun get_next_subtitle_frame :: "SubtitleFrame list \<Rightarrow> bool \<times> SubtitleFrame \<times> SubtitleFrame list" where
  "get_next_subtitle_frame [] = (False, empty_frame, [])"
| "get_next_subtitle_frame (f # fs) = (True, f, fs)"

section \<open>The event timeline (\<^verbatim>\<open>main.cpp\<close>)\<close>

record SubtitleEvent =
  in_tc :: string
  out_tc :: string
  png_file :: string
  ev_x :: int
  ev_y :: int
  ev_width :: int
  ev_height :: int

text \<open>The part of the options and of the stream information that the loop of \<^verbatim>\<open>main\<close>
  reads. The outcome of writing a PNG file is a predicate on the path.\<close>

record Settings =
  opt_ss :: "real option"
  opt_to :: "real option"
  video_start_time :: real
  bdn_fps :: real
  base_name :: string
  output_dir :: string
  png_written :: "string \<Rightarrow> bool"

definition generate_png_filename :: "int \<Rightarrow> string \<Rightarrow> string" where
  "generate_png_filename index name = name @ setw_fill0 5 index @ ''.png''"

definition save_bitmap_as_png :: "(string \<Rightarrow> bool) \<Rightarrow> BitmapData \<Rightarrow> string \<Rightarrow> bool" where
  "save_bitmap_as_png written bm filename =
     (if bm_data bm = [] \<or> bm_width bm \<le> 0 \<or> bm_height bm \<le> 0 then False
      else written filename)"

text \<open>\<^verbatim>\<open>adjust_timestamp_for_range\<close> returns \<^verbatim>\<open>false\<close> (here \<open>None\<close>) for a frame outside
  the range and otherwise updates the two times (here the pair it returns).\<close>

definition adjust_timestamp_for_range ::
  "real \<Rightarrow> real \<Rightarrow> real option \<Rightarrow> real option \<Rightarrow> (real \<times> real) option" where
  "adjust_timestamp_for_range adjusted_start adjusted_end ss to =
     (if (case ss of Some s \<Rightarrow> adjusted_start < s | None \<Rightarrow> False) then None
      else if (case to of Some t \<Rightarrow> adjusted_start \<ge> t | None \<Rightarrow> False) then None
      else
        let adjusted_end' =
              (case to of Some t \<Rightarrow> if adjusted_end > t then t else adjusted_end
               | None \<Rightarrow> adjusted_end)
        in case ss of
             Some s \<Rightarrow> Some (dsub adjusted_start s, dsub adjusted_end' s)
           | None \<Rightarrow> Some (adjusted_start, adjusted_end'))"

text \<open>The test \<^verbatim>\<open>start_time > 0 && end_time > start_time\<close> of \<^verbatim>\<open>main\<close>.\<close>

definition display_times_usable :: "SubtitleFrame \<Rightarrow> bool" where
  "display_times_usable f = (start_time f > 0 \<and> end_time f > start_time f)"

text \<open>The start and the end of a frame with a bitmap, relative to the start of the stream,
  before the range is applied.\<close>

definition display_interval ::
  "real \<Rightarrow> SubtitleFrame \<Rightarrow> SubtitleFrame \<Rightarrow> bool \<Rightarrow> real \<times> real" where
  "display_interval video_start subtitle_frame next_subtitle_frame has_next_frame =
     (if display_times_usable subtitle_frame
      then (adjust_timestamp (start_time subtitle_frame) video_start,
            adjust_timestamp (end_time subtitle_frame) video_start)
      else
        let adjusted_start = adjust_timestamp (timestamp subtitle_frame) video_start in
        if has_next_frame \<and> bitmap next_subtitle_frame \<noteq> None then
          if display_times_usable next_subtitle_frame
          then (adjusted_start, adjust_timestamp (start_time next_subtitle_frame) video_start)
          else (adjusted_start, adjust_timestamp (timestamp next_subtitle_frame) video_start)
        else if has_next_frame \<and> bitmap next_subtitle_frame = None then
          (adjusted_start, adjust_timestamp (timestamp next_subtitle_frame) video_start)
        else (adjusted_start, dadd adjusted_start 1))"

text \<open>The time a clear command writes into the last event.\<close>

definition clear_time :: "Settings \<Rightarrow> SubtitleFrame \<Rightarrow> real" where
  "clear_time cfg subtitle_frame =
     (let clear_timestamp = adjust_timestamp (timestamp subtitle_frame) (video_start_time cfg);
          clear_timestamp' =
            (case opt_to cfg of
               Some t \<Rightarrow> if clear_timestamp > t then t else clear_timestamp
             | None \<Rightarrow> clear_timestamp)
      in case opt_ss cfg of Some s \<Rightarrow> dsub clear_timestamp' s | None \<Rightarrow> clear_timestamp')"

text \<open>One pass through the body of the loop, up to the statements that advance to the next
  frame: the list of events and the frame index after the pass. A frame without a bitmap
  and with a positive timestamp is a clear command; \<^verbatim>\<open>events.back()\<close> is the last element
  of the list. The path of the PNG file is the file name below the output directory, and
  the frame index is not bounded.\<close>

definition loop_body ::
  "Settings \<Rightarrow> SubtitleFrame \<Rightarrow> SubtitleFrame \<Rightarrow> bool \<Rightarrow> SubtitleEvent list \<times> int
    \<Rightarrow> error + SubtitleEvent list \<times> int" where
  "loop_body cfg subtitle_frame next_subtitle_frame has_next_frame = (\<lambda>(events, frame_index).
     case bitmap subtitle_frame of
       None \<Rightarrow>
         if timestamp subtitle_frame > 0 then
           if events \<noteq> [] then
             and_then (time_to_tc (clear_time cfg subtitle_frame) (bdn_fps cfg)) (\<lambda>tc.
               Inr (butlast events @ [(last events)\<lparr>out_tc := tc\<rparr>], frame_index))
           else Inr (events, frame_index)
         else Inr (events, frame_index)
     | Some bm \<Rightarrow>
         if bm_width bm = 0 \<or> bm_height bm = 0 then Inr (events, frame_index)
         else
           let (adjusted_start, adjusted_end) =
                 display_interval (video_start_time cfg) subtitle_frame next_subtitle_frame
                   has_next_frame
           in (case adjust_timestamp_for_range adjusted_start adjusted_end
                      (opt_ss cfg) (opt_to cfg) of
                 None \<Rightarrow> Inr (events, frame_index)
               | Some (start_timestamp, end_timestamp) \<Rightarrow>
                   if start_timestamp \<ge> end_timestamp then Inr (events, frame_index)
                   else
                     let png_filename = generate_png_filename frame_index (base_name cfg);
                         png_path = output_dir cfg @ ''/'' @ png_filename
                     in if \<not> save_bitmap_as_png (png_written cfg) bm png_path
                        then Inr (events, frame_index)
                        else
                          and_then (time_to_tc start_timestamp (bdn_fps cfg)) (\<lambda>tc_in.
                          and_then (time_to_tc end_timestamp (bdn_fps cfg)) (\<lambda>tc_out.
                            Inr (events @
                                 [\<lparr>in_tc = tc_in, out_tc = tc_out, png_file = png_filename,
                                   ev_x = pos_x subtitle_frame, ev_y = pos_y subtitle_frame,
                                   ev_width = bm_width bm, ev_height = bm_height bm\<rparr>],
                                 frame_index + 1)))))"

text \<open>The \<^verbatim>\<open>do ... while\<close> loop: after each pass the lookahead frame becomes the current
  frame and the next frame is read; the loop goes on while the current frame has a bitmap
  or a next frame was read.\<close>

function main_loop ::
  "Settings \<Rightarrow> SubtitleFrame \<Rightarrow> SubtitleFrame \<Rightarrow> bool \<Rightarrow> SubtitleFrame list
    \<Rightarrow> SubtitleEvent list \<times> int \<Rightarrow> error + SubtitleEvent list \<times> int" where
  "main_loop cfg subtitle_frame next_subtitle_frame has_next_frame source st =
     (case loop_body cfg subtitle_frame next_subtitle_frame has_next_frame st of
        Inl e \<Rightarrow> Inl e
      | Inr st' \<Rightarrow>
          (case get_next_subtitle_frame source of
             (has_next_frame', next_subtitle_frame', source') \<Rightarrow>
               if bitmap next_subtitle_frame \<noteq> None \<or> has_next_frame'
               then main_loop cfg next_subtitle_frame next_subtitle_frame' has_next_frame'
                      source' st'
               else Inr st'))"
  by pat_completeness auto
termination
  by (relation "measure (\<lambda>(cfg, cur, nxt, has_next, source, st).
        4 * length source + (if has_next then 2 else 0) + (if bitmap nxt \<noteq> None then 1 else 0))")
     (auto simp: empty_frame_def elim!: get_next_subtitle_frame.elims [OF sym])

declare main_loop.simps [simp del]

text \<open>The events \<^verbatim>\<open>main\<close> hands to the generator of the document.\<close>

definition main_events :: "Settings \<Rightarrow> SubtitleFrame list \<Rightarrow> error + SubtitleEvent list" where
  "main_events cfg source =
     (case get_next_subtitle_frame source of
        (False, _, _) \<Rightarrow> Inr []
      | (True, subtitle_frame, source') \<Rightarrow>
          (case get_next_subtitle_frame source' of
             (has_next_frame, next_subtitle_frame, source'') \<Rightarrow>
               and_then (main_loop cfg subtitle_frame next_subtitle_frame has_next_frame
                           source'' ([], 0))
                 (\<lambda>(events, frame_index). Inr events)))"

text \<open>The time at which a frame with a bitmap starts to be displayed, as the loop reads it
  from the frame, and the start it hands to \<^verbatim>\<open>time_to_tc\<close> once the start of the stream and
  the start of the range are subtracted.\<close>

definition frame_start :: "SubtitleFrame \<Rightarrow> real" where
  "frame_start f = (if display_times_usable f then start_time f else timestamp f)"

definition event_start :: "Settings \<Rightarrow> SubtitleFrame \<Rightarrow> real" where
  "event_start cfg f =
     (case opt_ss cfg of
        Some s \<Rightarrow> dsub (adjust_timestamp (frame_start f) (video_start_time cfg)) s
      | None \<Rightarrow> adjust_timestamp (frame_start f) (video_start_time cfg))"

section \<open>The compositor (\<^verbatim>\<open>get_next_subtitle_frame\<close>)\<close>

subsection \<open>Single precision arithmetic\<close>

text \<open>
  The blend is computed in \<^verbatim>\<open>float\<close>. A finite \<^verbatim>\<open>float\<close> is modelled by the real number it
  denotes, and each operation returns the exact result rounded to the nearest number with
  a significand of 24 bits, ties to the even significand (every intermediate result is a
  \<^verbatim>\<open>float\<close>, no fused multiply-add). Results beyond the largest \<^verbatim>\<open>float\<close> are not modelled:
  the blend stays below 512.
\<close>

text \<open>The power of two \<open>p\<close> with \<open>p \<le> v < 2 * p\<close>, searched from \<open>p\<close> in at most \<open>n\<close> steps.\<close>

fun binade :: "nat \<Rightarrow> real \<Rightarrow> real \<Rightarrow> real" where
  "binade n v p =
     (if n = 0 then p
      else if v < p then binade (n - 1) v (p / 2)
      else if 2 * p \<le> v then binade (n - 1) v (2 * p)
      else p)"

declare binade.simps [simp del]

definition float_round :: "real \<Rightarrow> real" where
  "float_round v =
     (if v = 0 then 0
      else
        let p = binade 300 \<bar>v\<bar> 1;
            ulp = (if p < 1 / 2 ^ 126 then 1 / 2 ^ 149 else p / 2 ^ 23)
        in sgn v * (of_int (round_half_even (\<bar>v\<bar> / ulp)) * ulp))"

definition fadd :: "real \<Rightarrow> real \<Rightarrow> real" where
  "fadd a b = float_round (a + b)"

definition fsub :: "real \<Rightarrow> real \<Rightarrow> real" where
  "fsub a b = float_round (a - b)"

definition fmul :: "real \<Rightarrow> real \<Rightarrow> real" where
  "fmul a b = float_round (a * b)"

definition fdiv :: "real \<Rightarrow> real \<Rightarrow> real" where
  "fdiv a b = float_round (a / b)"

text \<open>A \<^verbatim>\<open>uint8_t\<close> as a \<^verbatim>\<open>float\<close> (exact), and the cast of a \<^verbatim>\<open>float\<close> to \<^verbatim>\<open>uint8_t\<close>,
  which discards the fraction.\<close>

definition u8_to_float :: "8 word \<Rightarrow> real" where
  "u8_to_float c = real (unat c)"

definition float_to_u8 :: "real \<Rightarrow> 8 word" where
  "float_to_u8 v = word_of_int (if 0 \<le> v then \<lfloor>v\<rfloor> else \<lceil>v\<rceil>)"

subsection \<open>Rectangles and pixels\<close>

text \<open>A rectangle of a decoded subtitle. The two data pointers are \<open>None\<close> when null; the
  memory behind them is read only: the palette indices by offset, the palette by index.\<close>

record AVSubtitleRect =
  rect_x :: int
  rect_y :: int
  rect_w :: int
  rect_h :: int
  rect_is_bitmap :: bool
  rect_indices :: "(int \<Rightarrow> 8 word) option"
  rect_palette :: "(8 word \<Rightarrow> 32 word) option"
  rect_linesize :: int

type_synonym rgba = "8 word \<times> 8 word \<times> 8 word \<times> 8 word"

definition argb_to_rgba :: "32 word \<Rightarrow> rgba" where
  "argb_to_rgba argb =
     (ucast (drop_bit 16 argb AND 0xFF), ucast (drop_bit 8 argb AND 0xFF),
      ucast (drop_bit 0 argb AND 0xFF), ucast (drop_bit 24 argb AND 0xFF))"

text \<open>The statements guarded by \<^verbatim>\<open>if (a > 0)\<close>: the source pixel is drawn into the four
  bytes of the composite bitmap at \<open>offset\<close>.\<close>

definition blend_pixel :: "8 word list \<Rightarrow> nat \<Rightarrow> rgba \<Rightarrow> 8 word list" where
  "blend_pixel data offset = (\<lambda>(r, g, b, a).
     if a > 0 then
       if a = 255 \<or> data ! (offset + 3) = 0 then
         data[offset + 0 := r, offset + 1 := g, offset + 2 := b, offset + 3 := a]
       else
         let alpha = fdiv (u8_to_float a) 255;
             inv_alpha = fsub 1 alpha;
             data1 = data[offset + 0 :=
                       float_to_u8 (fadd (fmul (u8_to_float r) alpha)
                                         (fmul (u8_to_float (data ! (offset + 0))) inv_alpha))];
             data2 = data1[offset + 1 :=
                       float_to_u8 (fadd (fmul (u8_to_float g) alpha)
                                         (fmul (u8_to_float (data1 ! (offset + 1))) inv_alpha))];
             data3 = data2[offset + 2 :=
                       float_to_u8 (fadd (fmul (u8_to_float b) alpha)
                                         (fmul (u8_to_float (data2 ! (offset + 2))) inv_alpha))]
         in data3[offset + 3 :=
                    float_to_u8 (fadd (u8_to_float a)
                                      (fmul (u8_to_float (data3 ! (offset + 3))) inv_alpha))]
     else data)"

text \<open>The body of the two inner loops for the source pixel \<open>(x, y)\<close> of a rectangle drawn at
  \<open>(dest_x, dest_y)\<close> of the composite bitmap.\<close>

definition draw_pixel ::
  "(int \<Rightarrow> 8 word) \<Rightarrow> (8 word \<Rightarrow> 32 word) \<Rightarrow> int \<Rightarrow> int \<Rightarrow> int \<Rightarrow> int \<Rightarrow> int \<Rightarrow> int \<Rightarrow> int
    \<Rightarrow> 8 word list \<Rightarrow> 8 word list" where
  "draw_pixel indices palette linesize dest_x dest_y composite_width composite_height y x data =
     (let index = indices (y * linesize + x);
          argb = palette index;
          comp_x = dest_x + x;
          comp_y = dest_y + y
      in if comp_x \<ge> 0 \<and> comp_x < composite_width \<and> comp_y \<ge> 0 \<and> comp_y < composite_height
         then blend_pixel data (nat ((comp_y * composite_width + comp_x) * 4)) (argb_to_rgba argb)
         else data)"

definition draw_row ::
  "(int \<Rightarrow> 8 word) \<Rightarrow> (8 word \<Rightarrow> 32 word) \<Rightarrow> int \<Rightarrow> int \<Rightarrow> int \<Rightarrow> int \<Rightarrow> int \<Rightarrow> int \<Rightarrow> int
    \<Rightarrow> 8 word list \<Rightarrow> 8 word list" where
  "draw_row indices palette linesize w dest_x dest_y composite_width composite_height y data =
     foldl (\<lambda>d x. draw_pixel indices palette linesize dest_x dest_y composite_width
                    composite_height y (int x) d)
       data [0..<nat w]"

definition draw_rect ::
  "(int \<Rightarrow> 8 word) \<Rightarrow> (8 word \<Rightarrow> 32 word) \<Rightarrow> int \<Rightarrow> int \<Rightarrow> int \<Rightarrow> int \<Rightarrow> int \<Rightarrow> int \<Rightarrow> int
    \<Rightarrow> 8 word list \<Rightarrow> 8 word list" where
  "draw_rect indices palette linesize w h dest_x dest_y composite_width composite_height data =
     foldl (\<lambda>d y. draw_row indices palette linesize w dest_x dest_y composite_width
                    composite_height (int y) d)
       data [0..<nat h]"

text \<open>The loop over the rectangles: a rectangle that is not a bitmap, or with a null data
  pointer, is skipped.\<close>

definition composite_rects :: "AVSubtitleRect list \<Rightarrow> int \<Rightarrow> int \<Rightarrow> int \<Rightarrow> int \<Rightarrow> 8 word list \<Rightarrow> 8 word list" where
  "composite_rects rects min_x min_y composite_width composite_height data =
     foldl (\<lambda>d rect.
         if \<not> rect_is_bitmap rect then d
         else case (rect_indices rect, rect_palette rect) of
                (Some indices, Some palette) \<Rightarrow>
                  draw_rect indices palette (rect_linesize rect) (rect_w rect) (rect_h rect)
                    (rect_x rect - min_x) (rect_y rect - min_y)
                    composite_width composite_height d
              | _ \<Rightarrow> d)
       data rects"

text \<open>The composite bitmap of a subtitle with rectangles and the top left corner of its
  bounding box; \<open>None\<close> when no rectangle is a bitmap. The data is a vector resized to
  \<^verbatim>\<open>width * height * 4\<close>, an \<^verbatim>\<open>int\<close> converted to \<^verbatim>\<open>size_t\<close>: for a negative product the
  length is beyond the largest vector and \<^verbatim>\<open>resize\<close> throws \<^verbatim>\<open>std::length_error\<close>, which
  nothing catches.\<close>

definition composite_bitmap ::
  "AVSubtitleRect list \<Rightarrow> error + (BitmapData \<times> int \<times> int) option" where
  "composite_bitmap rects =
     (let bitmaps = filter rect_is_bitmap rects in
      if bitmaps = [] then Inr None
      else
        let min_x = foldl (\<lambda>m rect. min m (rect_x rect)) INT_MAX bitmaps;
            min_y = foldl (\<lambda>m rect. min m (rect_y rect)) INT_MAX bitmaps;
            max_x = foldl (\<lambda>m rect. max m (add_int (rect_x rect) (rect_w rect))) INT_MIN bitmaps;
            max_y = foldl (\<lambda>m rect. max m (add_int (rect_y rect) (rect_h rect))) INT_MIN bitmaps;
            composite_width = add_int max_x (- min_x);
            composite_height = add_int max_y (- min_y);
            size = mul_int (mul_int composite_width composite_height) 4
        in if size < 0 then Inl LengthError
           else
             Inr (Some (\<lparr>bm_data = composite_rects rects min_x min_y composite_width
                                     composite_height (replicate (nat size) 0),
                          bm_width = composite_width, bm_height = composite_height,
                          bm_stride = mul_int composite_width 4\<rparr>,
                        min_x, min_y)))"

text \<open>What \<^verbatim>\<open>get_next_subtitle_frame\<close> makes of one decoded subtitle: a clear command when
  it has no rectangle, nothing (the next packet is read) when none of its rectangles is a
  bitmap, and otherwise the frame with the composite bitmap.\<close>

definition subtitle_to_frame ::
  "AVSubtitleRect list \<Rightarrow> int \<Rightarrow> int \<times> int \<Rightarrow> 32 word \<Rightarrow> 32 word
    \<Rightarrow> error + SubtitleFrame option" where
  "subtitle_to_frame rects p time_base start_display_time end_display_time =
     (if rects = []
      then Inr (Some (decoded_frame None p time_base start_display_time end_display_time))
      else and_then (composite_bitmap rects) (\<lambda>composite.
             case composite of
               None \<Rightarrow> Inr None
             | Some c \<Rightarrow>
                 Inr (Some (decoded_frame (Some c) p time_base
                              start_display_time end_display_time))))"
section \<open>Example inputs\<close>

text \<open>Settings without a clip range, a stream that starts at time 0, 30 frames per second,
  and every PNG file written; a bitmap of one opaque pixel; frames of a transport stream
  (time base 1/90000).\<close>

definition example_settings :: Settings where
  "example_settings =
     \<lparr>opt_ss = None, opt_to = None, video_start_time = 0, bdn_fps = 30,
      base_name = ''sub'', output_dir = ''out'', png_written = (\<lambda>path. True)\<rparr>"

definition example_bitmap :: BitmapData where
  "example_bitmap = \<lparr>bm_data = [255, 255, 255, 255], bm_width = 1, bm_height = 1, bm_stride = 4\<rparr>"

definition show_frame :: "int \<Rightarrow> 32 word \<Rightarrow> 32 word \<Rightarrow> SubtitleFrame" where
  "show_frame p start_display_time end_display_time =
     decoded_frame (Some (example_bitmap, 100, 200)) p (1, 90000)
       start_display_time end_display_time"

definition clear_frame :: "int \<Rightarrow> SubtitleFrame" where
  "clear_frame p = decoded_frame None p (1, 90000) 0 0"

text \<open>Settings with a clip range from 1 s to 5 s for a stream that starts at 0.5 s, and
  settings for a stream that starts at -3 s.\<close>

definition range_settings :: Settings where
  "range_settings =
     \<lparr>opt_ss = Some 1, opt_to = Some 5, video_start_time = 1 / 2, bdn_fps = 30,
      base_name = ''sub'', output_dir = ''out'', png_written = (\<lambda>path. True)\<rparr>"

definition early_settings :: Settings where
  "early_settings =
     \<lparr>opt_ss = None, opt_to = None, video_start_time = - 3, bdn_fps = 30,
      base_name = ''sub'', output_dir = ''out'', png_written = (\<lambda>path. True)\<rparr>"

section \<open>The specification's wording\<close>

text \<open>\<open>timeToTimecode\<close> as the specification describes it, on mathematical integers, with
  the division that rounds down: the negative input clamped to 0, the total frame count
  \<open>round (seconds * fps)\<close> (the product of two values of \<^verbatim>\<open>double\<close>), the nominal rate
  \<open>round fps\<close>, the successive divisions, and the carry normalization when the seconds or
  the minutes reach 60.\<close>

definition carry_normalization :: "int \<times> int \<times> int \<times> int \<Rightarrow> int \<times> int \<times> int \<times> int" where
  "carry_normalization = (\<lambda>(hours, minutes, secs, frames).
     let minutes' = (if 60 \<le> secs then minutes + secs div 60 else minutes);
         secs' = (if 60 \<le> secs then secs mod 60 else secs);
         hours' = (if 60 \<le> minutes' then hours + minutes' div 60 else hours);
         minutes'' = (if 60 \<le> minutes' then minutes' mod 60 else minutes')
     in (hours', minutes'', secs', frames))"

definition timeToTimecode :: "real \<Rightarrow> real \<Rightarrow> int \<times> int \<times> int \<times> int" where
  "timeToTimecode seconds fps =
     (let s = max 0 seconds;
          totalFrames = round (dmul s fps);
          fpsInt = round fps;
          hours = totalFrames div (fpsInt * 3600);
          rest = totalFrames mod (fpsInt * 3600);
          minutes = rest div (fpsInt * 60);
          rest' = rest mod (fpsInt * 60);
          secs = rest' div fpsInt;
          frames = rest' mod fpsInt
      in carry_normalization (hours, minutes, secs, frames))"

text \<open>The frame rates of the round trip property: the values of \<^verbatim>\<open>double\<close> that the decimal
  numbers 23.976, 29.97 and 59.94 denote, and the four whole rates.\<close>

definition fps_23_976 :: real where
  "fps_23_976 = double_literal (23976 / 1000)"

definition fps_29_97 :: real where
  "fps_29_97 = double_literal (2997 / 100)"

definition fps_59_94 :: real where
  "fps_59_94 = double_literal (5994 / 100)"


text \<open>The offset of the pixel \<open>(cx, cy)\<close> in the data of a bitmap \<open>W\<close> pixels wide.\<close>

definition pixel_offset :: "int \<Rightarrow> int \<Rightarrow> int \<Rightarrow> nat" where
  "pixel_offset W cx cy = nat ((cy * W + cx) * 4)"

text \<open>The four bytes of the pixel at \<open>offset\<close>, and the blend of the specification: each
  colour channel is \<open>src * a + dst * (1 - a)\<close> and the alpha channel is \<open>src.a + dst.a * (1 - a)\<close>
  with \<open>a = src.a / 255\<close>, computed in \<^verbatim>\<open>float\<close> and truncated to a byte.\<close>

definition pixel_at :: "8 word list \<Rightarrow> nat \<Rightarrow> rgba" where
  "pixel_at data offset =
     (data ! offset, data ! (offset + 1), data ! (offset + 2), data ! (offset + 3))"

definition blend_channel :: "8 word \<Rightarrow> 8 word \<Rightarrow> 8 word \<Rightarrow> 8 word" where
  "blend_channel src src_a dst =
     float_to_u8 (fadd (fmul (u8_to_float src) (fdiv (u8_to_float src_a) 255))
                       (fmul (u8_to_float dst) (fsub 1 (fdiv (u8_to_float src_a) 255))))"

definition blend_alpha :: "8 word \<Rightarrow> 8 word \<Rightarrow> 8 word" where
  "blend_alpha src_a dst_a =
     float_to_u8 (fadd (u8_to_float src_a)
                       (fmul (u8_to_float dst_a) (fsub 1 (fdiv (u8_to_float src_a) 255))))"

text \<open>The rule of the specification for a source pixel over a destination pixel.\<close>

definition overwrite_or_blend :: "rgba \<Rightarrow> rgba \<Rightarrow> rgba" where
  "overwrite_or_blend = (\<lambda>(sr, sg, sb, sa) (dr, dg, db, da).
     if sa = 255 \<or> da = 0 then (sr, sg, sb, sa)
     else (blend_channel sr sa dr, blend_channel sg sa dg, blend_channel sb sa db,
           blend_alpha sa da))"

text \<open>The same rule behind the guard of the code: a source pixel with alpha 0 is not drawn.\<close>

definition composite_rule :: "rgba \<Rightarrow> rgba \<Rightarrow> rgba" where
  "composite_rule src dst =
     (case src of (sr, sg, sb, sa) \<Rightarrow> if sa = 0 then dst else overwrite_or_blend src dst)"

section \<open>Properties of the double precision arithmetic\<close>

subsection \<open>Rounding to the nearest integer, ties to even\<close>

lemma round_half_even_cases:
  "round_half_even v = \<lfloor>v\<rfloor> \<or> round_half_even v = \<lfloor>v\<rfloor> + 1"
  by (simp add: round_half_even_def Let_def)

lemma round_half_even_of_int [simp]: "round_half_even (of_int n) = n"
  by (simp add: round_half_even_def)

lemma round_half_even_mono:
  assumes "a \<le> b"
  shows "round_half_even a \<le> round_half_even b"
proof (cases "\<lfloor>a\<rfloor> = \<lfloor>b\<rfloor>")
  case True
  have "a - of_int \<lfloor>b\<rfloor> \<le> b - of_int \<lfloor>b\<rfloor>" using assms by simp
  then show ?thesis unfolding round_half_even_def Let_def True by auto
next
  case False
  have "\<lfloor>a\<rfloor> \<le> \<lfloor>b\<rfloor>" using assms by (rule floor_mono)
  with False have "\<lfloor>a\<rfloor> + 1 \<le> \<lfloor>b\<rfloor>" by simp
  moreover have "round_half_even a \<le> \<lfloor>a\<rfloor> + 1" using round_half_even_cases [of a] by auto
  moreover have "\<lfloor>b\<rfloor> \<le> round_half_even b" using round_half_even_cases [of b] by auto
  ultimately show ?thesis by linarith
qed

subsection \<open>The binade of a positive number\<close>

lemma binade_up_bounds:
  assumes "0 < p" and "p \<le> v"
  shows "binade_up v p \<le> v \<and> v < 2 * binade_up v p \<and> (\<exists>n. binade_up v p = p * 2 ^ n)"
  using assms
proof (induction v p rule: binade_up.induct)
  case (1 v p)
  show ?case
  proof (cases "2 * p \<le> v")
    case True
    with "1.prems" have step: "binade_up v p = binade_up v (2 * p)"
      by (subst binade_up.simps) simp
    from "1.prems" True have "0 < p \<and> 2 * p \<le> v" by simp
    from "1.IH" [OF this] "1.prems" True
    obtain n where ih: "binade_up v (2 * p) \<le> v" "v < 2 * binade_up v (2 * p)"
      "binade_up v (2 * p) = 2 * p * 2 ^ n" by auto
    have "binade_up v (2 * p) = p * 2 ^ Suc n" using ih(3) by simp
    with ih(1,2) show ?thesis unfolding step by blast
  next
    case False
    then have "binade_up v p = p" by (subst binade_up.simps) simp
    moreover have "p = p * 2 ^ 0" by simp
    ultimately show ?thesis using "1.prems" False by (metis not_le)
  qed
qed

lemma binade_down_bounds:
  assumes "0 < v" and "0 < p" and "v < 2 * p"
  shows "binade_down v p \<le> v \<and> v < 2 * binade_down v p \<and> (\<exists>n. binade_down v p = p / 2 ^ n)"
  using assms
proof (induction v p rule: binade_down.induct)
  case (1 v p)
  show ?case
  proof (cases "v < p")
    case True
    with "1.prems" have step: "binade_down v p = binade_down v (p / 2)"
      by (subst binade_down.simps) simp
    from "1.prems" True have "0 < v \<and> v < p" by simp
    from "1.IH" [OF this] "1.prems" True
    obtain n where ih: "binade_down v (p / 2) \<le> v" "v < 2 * binade_down v (p / 2)"
      "binade_down v (p / 2) = p / 2 / 2 ^ n" by auto
    have "binade_down v (p / 2) = p / 2 ^ Suc n" using ih(3) by simp
    with ih(1,2) show ?thesis unfolding step by blast
  next
    case False
    then have "binade_down v p = p" by (subst binade_down.simps) simp
    moreover have "p = p / 2 ^ 0" by simp
    ultimately show ?thesis using "1.prems" False by (metis not_le)
  qed
qed

lemma binade64_bounds:
  assumes "0 < v"
  shows "binade64 v \<le> v" "v < 2 * binade64 v" "\<exists>k :: int. binade64 v = 2 powi k"
proof -
  have "binade64 v \<le> v \<and> v < 2 * binade64 v \<and> (\<exists>k :: int. binade64 v = 2 powi k)"
  proof (cases "1 \<le> v")
    case True
    then have eq: "binade64 v = binade_up v 1" by (simp add: binade64_def)
    from binade_up_bounds [of 1 v] True obtain n where
      b: "binade_up v 1 \<le> v" "v < 2 * binade_up v 1" and n: "binade_up v 1 = 1 * 2 ^ n"
      by fastforce
    have "binade_up v 1 = 2 powi int n" unfolding n by (simp only: power_int_of_nat mult_1)
    then have "\<exists>k :: int. binade_up v 1 = 2 powi k" by (rule exI)
    with b show ?thesis unfolding eq by blast
  next
    case False
    then have eq: "binade64 v = binade_down v 1" by (simp add: binade64_def)
    have "v < 2 * 1" using False by simp
    from binade_down_bounds [OF assms _ this] obtain n where
      b: "binade_down v 1 \<le> v" "v < 2 * binade_down v 1" and n: "binade_down v 1 = 1 / 2 ^ n"
      by fastforce
    have "1 / (2 :: real) ^ n = inverse (2 powi int n)"
      by (simp only: power_int_of_nat inverse_eq_divide)
    also have "\<dots> = 2 powi (- int n)" by (simp only: power_int_minus)
    finally have "binade_down v 1 = 2 powi (- int n)" unfolding n .
    then have "\<exists>k :: int. binade_down v 1 = 2 powi k" by (rule exI)
    with b show ?thesis unfolding eq by blast
  qed
  then show "binade64 v \<le> v" "v < 2 * binade64 v" "\<exists>k :: int. binade64 v = 2 powi k"
    by blast+
qed

lemma pow2_less_double:
  fixes j k :: int
  assumes "(2 :: real) powi j < 2 powi k"
  shows "2 * (2 :: real) powi j \<le> 2 powi k"
proof -
  have "j < k"
  proof (rule ccontr)
    assume "\<not> j < k"
    then have "k \<le> j" by simp
    then have "(2 :: real) powi k \<le> 2 powi j" by (rule power_int_increasing) simp
    with assms show False by simp
  qed
  then have "j + 1 \<le> k" by simp
  then have "(2 :: real) powi (j + 1) \<le> 2 powi k" by (rule power_int_increasing) simp
  then show ?thesis by (simp add: power_int_add)
qed

lemma pow2_le_multiple:
  fixes j k :: int
  assumes "(2 :: real) powi j \<le> 2 powi k"
  shows "\<exists>N :: int. (2 :: real) powi k = of_int N * 2 powi j"
proof -
  have "j \<le> k"
  proof (rule ccontr)
    assume "\<not> j \<le> k"
    then have "k < j" by simp
    then have "(2 :: real) powi k < 2 powi j" by (rule power_int_strict_increasing) simp
    with assms show False by simp
  qed
  define n where "n = nat (k - j)"
  have "k = int n + j" using \<open>j \<le> k\<close> by (simp add: n_def)
  then have "(2 :: real) powi k = 2 powi (int n + j)" by (rule arg_cong)
  also have "\<dots> = 2 powi int n * 2 powi j" by (rule power_int_add) simp
  also have "(2 :: real) powi int n = of_int (2 ^ n)" by (simp only: power_int_of_nat of_int_power of_int_numeral)
  finally show ?thesis by blast
qed

lemma binade64_mono:
  assumes "0 < x" and "x \<le> y"
  shows "binade64 x \<le> binade64 y"
proof (rule ccontr)
  assume "\<not> binade64 x \<le> binade64 y"
  then have lt: "binade64 y < binade64 x" by simp
  have y: "0 < y" using assms by simp
  from binade64_bounds(3) [OF assms(1)] obtain j :: int where j: "binade64 x = 2 powi j" by blast
  from binade64_bounds(3) [OF y] obtain k :: int where k: "binade64 y = 2 powi k" by blast
  from lt have "2 * binade64 y \<le> binade64 x" unfolding j k by (rule pow2_less_double)
  with binade64_bounds(2) [OF y] binade64_bounds(1) [OF assms(1)] assms(2) show False by simp
qed

subsection \<open>Rounding to \<^verbatim>\<open>double\<close> is monotone\<close>

lemma double_ulp_pow2:
  assumes "\<exists>k :: int. p = 2 powi k"
  shows "\<exists>k :: int. double_ulp p = 2 powi k"
proof -
  from assms obtain k :: int where k: "p = 2 powi k" by blast
  have a: "1 / (2 :: real) ^ 1074 = 2 powi (- 1074)"
    by (simp add: power_int_minus field_simps)
  have "p / 2 ^ 52 = 2 powi (k - 52)" unfolding k by (simp add: power_int_diff)
  with a show ?thesis unfolding double_ulp_def by (metis (full_types))
qed

lemma double_ulp_mono: "p \<le> q \<Longrightarrow> double_ulp p \<le> double_ulp q"
  by (auto simp: double_ulp_def field_simps)

lemma double_ulp_pos: "0 < p \<Longrightarrow> 0 < double_ulp p"
  by (simp add: double_ulp_def)

lemma round_to_ulp_nonneg: "0 < u \<Longrightarrow> 0 \<le> v \<Longrightarrow> 0 \<le> round_to_ulp u v"
proof -
  assume u: "0 < u" and v: "0 \<le> v"
  have "0 \<le> \<bar>v\<bar> / u" using u by simp
  then have "round_half_even 0 \<le> round_half_even (\<bar>v\<bar> / u)" by (rule round_half_even_mono)
  then have "0 \<le> round_half_even (\<bar>v\<bar> / u)" using round_half_even_of_int [of 0] by simp
  then show ?thesis unfolding round_to_ulp_def using u v by (simp add: sgn_if)
qed

lemma double_round_nonneg:
  assumes "0 \<le> v"
  shows "0 \<le> double_round v"
proof (cases "v = 0")
  case True
  then show ?thesis by (simp add: double_round_def)
next
  case False
  with assms have "0 < \<bar>v\<bar>" by simp
  then have "0 < binade64 \<bar>v\<bar>"
    using binade64_bounds(2) [of "\<bar>v\<bar>"] binade64_bounds(1) [of "\<bar>v\<bar>"] by linarith
  then have "0 < double_ulp (binade64 \<bar>v\<bar>)" by (rule double_ulp_pos)
  then show ?thesis using False assms by (simp add: double_round_def round_to_ulp_nonneg)
qed

lemma double_round_minus: "double_round (- v) = - double_round v"
  by (simp add: double_round_def round_to_ulp_def)

lemma double_round_pos_mono:
  assumes x: "0 < x" and xy: "x \<le> y"
  shows "double_round x \<le> double_round y"
proof -
  have y: "0 < y" using x xy by simp
  define px where "px = binade64 x"
  define py where "py = binade64 y"
  define ux where "ux = double_ulp px"
  define uy where "uy = double_ulp py"
  have px: "px \<le> x" "x < 2 * px" unfolding px_def using binade64_bounds [OF x] by simp_all
  have py: "py \<le> y" "y < 2 * py" unfolding py_def using binade64_bounds [OF y] by simp_all
  have px0: "0 < px" using px x by linarith
  have py0: "0 < py" using py y by linarith
  have pxy: "px \<le> py" unfolding px_def py_def using x xy by (rule binade64_mono)
  have ux0: "0 < ux" unfolding ux_def using px0 by (rule double_ulp_pos)
  have uy0: "0 < uy" unfolding uy_def using py0 by (rule double_ulp_pos)
  have uxy: "ux \<le> uy" unfolding ux_def uy_def using pxy by (rule double_ulp_mono)
  have rx: "double_round x = of_int (round_half_even (x / ux)) * ux"
    using x by (simp add: double_round_def round_to_ulp_def px_def ux_def)
  have ry: "double_round y = of_int (round_half_even (y / uy)) * uy"
    using y by (simp add: double_round_def round_to_ulp_def py_def uy_def)
  show ?thesis
  proof (cases "ux = uy")
    case True
    have "x / uy \<le> y / uy" using xy uy0 by (simp add: divide_right_mono)
    then have "round_half_even (x / uy) \<le> round_half_even (y / uy)" by (rule round_half_even_mono)
    then have "of_int (round_half_even (x / uy)) * uy \<le> of_int (round_half_even (y / uy)) * uy"
      using uy0 by simp
    then show ?thesis unfolding rx ry True .
  next
    case False
    with uxy have ult: "ux < uy" by simp
    have py_big: "\<not> py < 1 / 2 ^ 1022"
    proof
      assume "py < 1 / 2 ^ 1022"
      then have "uy = 1 / 2 ^ 1074" by (simp add: uy_def double_ulp_def)
      moreover have "1 / 2 ^ 1074 \<le> ux" unfolding ux_def double_ulp_def by (simp add: field_simps)
      ultimately show False using ult by simp
    qed
    then have uy_eq: "uy = py / 2 ^ 52" by (simp add: uy_def double_ulp_def)
    have "px \<noteq> py" using False unfolding ux_def uy_def by auto
    with pxy have plt: "px < py" by simp
    obtain j :: int where j: "px = 2 powi j" unfolding px_def using binade64_bounds(3) [OF x] by blast
    obtain k :: int where k: "py = 2 powi k" unfolding py_def using binade64_bounds(3) [OF y] by blast
    have "2 * px \<le> py" using plt unfolding j k by (rule pow2_less_double)
    then have x_py: "x \<le> py" using px(2) by simp
    obtain a :: int where a: "ux = 2 powi a"
      unfolding ux_def px_def using double_ulp_pow2 [OF binade64_bounds(3) [OF x]] by blast
    obtain b :: int where b: "uy = 2 powi b"
      unfolding uy_def py_def using double_ulp_pow2 [OF binade64_bounds(3) [OF y]] by blast
    from uxy obtain N :: int where N: "uy = of_int N * ux"
      unfolding a b using pow2_le_multiple by blast
    have py_ux: "py = of_int (2 ^ 52 * N) * ux" using uy_eq N by simp
    have "x / ux \<le> of_int (2 ^ 52 * N)"
      using x_py ux0 unfolding py_ux by (simp add: pos_divide_le_eq)
    then have "round_half_even (x / ux) \<le> round_half_even (of_int (2 ^ 52 * N))"
      by (rule round_half_even_mono)
    then have "round_half_even (x / ux) \<le> 2 ^ 52 * N" by (simp only: round_half_even_of_int)
    then have "of_int (round_half_even (x / ux)) \<le> (of_int (2 ^ 52 * N) :: real)"
      by (simp only: of_int_le_iff)
    then have "of_int (round_half_even (x / ux)) * ux \<le> of_int (2 ^ 52 * N) * ux"
      using ux0 by (simp only: mult_le_cancel_right_pos)
    then have left: "double_round x \<le> py" unfolding rx py_ux .
    have "of_int (2 ^ 52) * uy = py" using uy_eq by simp
    then have "of_int (2 ^ 52) * uy \<le> y" using py(1) by simp
    then have "of_int (2 ^ 52) \<le> y / uy" using uy0 by (simp only: pos_le_divide_eq)
    then have "round_half_even (of_int (2 ^ 52)) \<le> round_half_even (y / uy)"
      by (rule round_half_even_mono)
    then have "2 ^ 52 \<le> round_half_even (y / uy)" by (simp only: round_half_even_of_int)
    then have "(of_int (2 ^ 52) :: real) \<le> of_int (round_half_even (y / uy))"
      by (simp only: of_int_le_iff)
    then have "of_int (2 ^ 52) * uy \<le> of_int (round_half_even (y / uy)) * uy"
      using uy0 by (simp only: mult_le_cancel_right_pos)
    moreover have "of_int (2 ^ 52) * uy = py" using uy_eq by simp
    ultimately have right: "py \<le> double_round y" unfolding ry by simp
    from left right show ?thesis by simp
  qed
qed

lemma double_round_mono:
  assumes "x \<le> y"
  shows "double_round x \<le> double_round y"
proof -
  consider "0 < x" | "x \<le> 0" "0 \<le> y" | "y < 0" by linarith
  then show ?thesis
  proof cases
    case 1
    then show ?thesis using assms by (rule double_round_pos_mono)
  next
    case 2
    have "0 \<le> double_round (- x)" using 2(1) by (intro double_round_nonneg) simp
    then have "double_round x \<le> 0" by (simp add: double_round_minus)
    moreover have "0 \<le> double_round y" using 2(2) by (rule double_round_nonneg)
    ultimately show ?thesis by simp
  next
    case 3
    then have "0 < - y" "- y \<le> - x" using assms by simp_all
    then have "double_round (- y) \<le> double_round (- x)" by (rule double_round_pos_mono)
    then show ?thesis by (simp add: double_round_minus)
  qed
qed

lemma dadd_mono: "a \<le> b \<Longrightarrow> c \<le> d \<Longrightarrow> dadd a c \<le> dadd b d"
  unfolding dadd_def by (rule double_round_mono) simp

lemma dsub_mono: "a \<le> b \<Longrightarrow> dsub a c \<le> dsub b c"
  unfolding dsub_def by (rule double_round_mono) simp

lemma dmul_mono: "a \<le> b \<Longrightarrow> 0 \<le> c \<Longrightarrow> dmul a c \<le> dmul b c"
  unfolding dmul_def by (rule double_round_mono) (rule mult_right_mono)

lemma ddiv_mono: "a \<le> b \<Longrightarrow> 0 \<le> c \<Longrightarrow> ddiv a c \<le> ddiv b c"
  unfolding ddiv_def by (rule double_round_mono) (rule divide_right_mono)

lemma dmul_nonneg: "0 \<le> a \<Longrightarrow> 0 \<le> b \<Longrightarrow> 0 \<le> dmul a b"
  unfolding dmul_def by (rule double_round_nonneg) simp

subsection \<open>Evaluation\<close>

lemmas double_eval = double_round_def binade64_def binade_up.simps binade_down.simps
  double_ulp_def round_to_ulp_def round_half_even_def Let_def


lemma binade64_eq:
  fixes k :: int
  assumes "p = 2 powi k" and "p \<le> v" and "v < 2 * p"
  shows "binade64 v = p"
proof -
  have p0: "0 < p" unfolding assms(1) by (rule zero_less_power_int) simp
  then have v: "0 < v" using assms(2) by simp
  from binade64_bounds(3) [OF v] obtain j :: int where j: "binade64 v = 2 powi j" by blast
  note b = binade64_bounds(1,2) [OF v]
  show ?thesis
  proof (rule ccontr)
    assume "binade64 v \<noteq> p"
    then consider "binade64 v < p" | "p < binade64 v" by linarith
    then show False
    proof cases
      case 1
      then have "2 * binade64 v \<le> p" unfolding j assms(1) by (rule pow2_less_double)
      with b(2) assms(2) show False by simp
    next
      case 2
      then have "2 * p \<le> binade64 v" unfolding j assms(1) by (rule pow2_less_double)
      with b(1) assms(3) show False by simp
    qed
  qed
qed

text \<open>Below \<open>2 ^ - 1022\<close> the values of \<^verbatim>\<open>double\<close> are the multiples of \<open>2 ^ - 1074\<close>: 1.5 and 2.5
  times this unit are both rounded to twice the unit, the even multiple.\<close>

lemma subnormal_example:
  "double_round (3 / 2 ^ 1075) = 1 / 2 ^ 1073"
  "double_round (5 / 2 ^ 1075) = 1 / 2 ^ 1073"
proof -
  have p: "1 / (2 :: real) ^ 1074 = 2 powi (- 1074)" "1 / (2 :: real) ^ 1073 = 2 powi (- 1073)"
    by (simp_all add: power_int_minus field_simps)
  have b: "binade64 \<bar>3 / 2 ^ 1075\<bar> = 1 / 2 ^ 1074"
    by (rule binade64_eq [OF p(1)]) simp_all
  have c: "binade64 \<bar>5 / 2 ^ 1075\<bar> = 1 / 2 ^ 1073"
    by (rule binade64_eq [OF p(2)]) simp_all
  show "double_round (3 / 2 ^ 1075) = 1 / 2 ^ 1073"
    unfolding double_round_def b
    by (simp add: double_ulp_def round_to_ulp_def round_half_even_def Let_def)
  show "double_round (5 / 2 ^ 1075) = 1 / 2 ^ 1073"
    unfolding double_round_def c
    by (simp add: double_ulp_def round_to_ulp_def round_half_even_def Let_def)
qed

section \<open>Properties of the timecode formatter\<close>

subsection \<open>Machine arithmetic inside its range\<close>

lemma wrap32_id: "INT_MIN \<le> k \<Longrightarrow> k \<le> INT_MAX \<Longrightarrow> wrap32 k = k"
  by (simp add: wrap32_def INT_MIN_def INT_MAX_def)

lemma quot_int_nonneg: "0 \<le> a \<Longrightarrow> 0 < b \<Longrightarrow> quot_int a b = Inr (a div b)"
  by (cases "a = 0") (simp_all add: quot_int_def INT_MIN_def)

lemma rem_int_nonneg: "0 \<le> a \<Longrightarrow> 0 < b \<Longrightarrow> rem_int a b = Inr (a mod b)"
  by (cases "a = 0") (simp_all add: rem_int_def INT_MIN_def)

lemma and_then_Inr: "and_then (Inr x) f = f x"
  by (simp add: and_then_def)

lemma and_then_Inl: "and_then (Inl e) f = Inl e"
  by (simp add: and_then_def)

lemma c_round_nonneg: "0 \<le> x \<Longrightarrow> c_round x = of_int (round x)"
  by (simp add: c_round_def round_def)

lemma to_int_of_int: "INT_MIN \<le> k \<Longrightarrow> k \<le> INT_MAX \<Longrightarrow> to_int (of_int k) = Inr k"
  by (simp add: to_int_def)

lemma round_ge_1_nonneg:
  fixes x :: real
  assumes "1 \<le> round x"
  shows "0 \<le> x"
proof -
  have "1 / 2 \<le> x" using assms by (simp add: round_def le_floor_iff)
  then show ?thesis by simp
qed

lemma round_nonneg:
  fixes x :: real
  assumes "0 \<le> x"
  shows "0 \<le> round x"
  using assms by (simp add: round_def le_floor_iff)

subsection \<open>Splitting a frame count\<close>

lemma div_less_60:
  fixes F r :: int
  assumes "0 < F" "0 \<le> r" "r < F * 60"
  shows "r div F < 60"
proof -
  have "F * (r div F) + r mod F = r" by simp
  moreover have "0 \<le> r mod F" using assms(1) by simp
  ultimately have "F * (r div F) < F * 60" using assms(3) by linarith
  then show ?thesis using assms(1) by (simp add: mult_less_cancel_left_pos)
qed

lemma frame_split:
  fixes T F :: int
  assumes "0 \<le> T" "0 < F"
  defines "h \<equiv> T div (F * 3600)" and "r \<equiv> T mod (F * 3600)"
  defines "m \<equiv> r div (F * 60)" and "r' \<equiv> r mod (F * 60)"
  shows "0 \<le> h" "0 \<le> r" "0 \<le> m" "m < 60" "0 \<le> r'" "0 \<le> r' div F" "r' div F < 60"
    "0 \<le> r' mod F" "r' mod F < F"
    "(h * 3600 + m * 60 + r' div F) * F + r' mod F = T"
proof -
  have F60: "0 < F * 60" and F3600: "0 < F * 3600" using assms(2) by simp_all
  show "0 \<le> h" unfolding h_def using assms(1) F3600 by (simp add: pos_imp_zdiv_nonneg_iff)
  show r0: "0 \<le> r" unfolding r_def using F3600 by simp
  have "r < F * 3600" unfolding r_def using F3600 by (rule pos_mod_bound)
  then have rlt: "r < (F * 60) * 60" by simp
  show "0 \<le> m" unfolding m_def using r0 F60 by (simp add: pos_imp_zdiv_nonneg_iff)
  show "m < 60" unfolding m_def using div_less_60 [OF F60 r0 rlt] .
  show r'0: "0 \<le> r'" unfolding r'_def using F60 by simp
  have r'lt: "r' < F * 60" unfolding r'_def using F60 by (rule pos_mod_bound)
  show "0 \<le> r' div F" using r'0 assms(2) by (simp add: pos_imp_zdiv_nonneg_iff)
  show "r' div F < 60" using div_less_60 [OF assms(2) r'0 r'lt] .
  show "0 \<le> r' mod F" using assms(2) by simp
  show "r' mod F < F" using assms(2) by simp
  have "T = h * (F * 3600) + r" unfolding h_def r_def by (rule div_mult_mod_eq [symmetric])
  moreover have "r = m * (F * 60) + r'" unfolding m_def r'_def by (rule div_mult_mod_eq [symmetric])
  moreover have "r' = (r' div F) * F + r' mod F" by (rule div_mult_mod_eq [symmetric])
  ultimately show "(h * 3600 + m * 60 + r' div F) * F + r' mod F = T"
    by (simp add: algebra_simps)
qed

subsection \<open>The divisions of \<^verbatim>\<open>time_to_tc\<close> without overflow\<close>

lemma tc_divisions_eq:
  assumes fps: "1 \<le> round fps" "round fps * 3600 \<le> INT_MAX"
    and tot: "round (dmul (max 0 seconds) fps) \<le> INT_MAX"
  shows "tc_divisions seconds fps =
    Inr (round (dmul (max 0 seconds) fps) div (round fps * 3600),
         round (dmul (max 0 seconds) fps) mod (round fps * 3600) div (round fps * 60),
         round (dmul (max 0 seconds) fps) mod (round fps * 3600) mod (round fps * 60) div round fps,
         round (dmul (max 0 seconds) fps) mod (round fps * 3600) mod (round fps * 60) mod round fps)"
proof -
  define T where "T = round (dmul (max 0 seconds) fps)"
  define F where "F = round fps"
  have Fpos: "0 < F" using fps(1) by (simp add: F_def)
  have fps0: "0 \<le> fps" using fps(1) by (rule round_ge_1_nonneg)
  then have prod0: "0 \<le> dmul (max 0 seconds) fps" by (intro dmul_nonneg) simp
  then have T0: "0 \<le> T" unfolding T_def by (rule round_nonneg)
  have s_eq: "(if seconds < 0 then 0 else seconds) = max 0 seconds" by (simp add: max_def)
  have tot_int: "to_int (c_round (dmul (max 0 seconds) fps)) = Inr T"
    using T0 tot by (simp add: c_round_nonneg [OF prod0] T_def [symmetric] to_int_of_int INT_MIN_def)
  have F_le: "F \<le> INT_MAX" using fps(2) Fpos by (simp add: F_def INT_MAX_def)
  have fps_int: "to_int (c_round fps) = Inr F"
    using Fpos F_le by (simp add: c_round_nonneg [OF fps0] F_def [symmetric] to_int_of_int INT_MIN_def)
  have fph: "mul_int F 3600 = F * 3600"
    using Fpos fps(2) by (simp add: mul_int_def wrap32_id INT_MIN_def F_def)
  have fpm: "mul_int F 60 = F * 60"
    using Fpos fps(2) by (simp add: mul_int_def wrap32_id INT_MIN_def INT_MAX_def F_def)
  note fs = frame_split [OF T0 Fpos]
  have F60: "0 < F * 60" and F3600: "0 < F * 3600" using Fpos by simp_all
  show ?thesis
    unfolding tc_divisions_def Let_def s_eq tot_int fps_int T_def [symmetric] F_def [symmetric]
    using Fpos T0 fs(2,5) F60 F3600
    by (simp only: fph fpm and_then_def quot_int_nonneg rem_int_nonneg sum.case)
qed

lemma tc_carry_id: "m < 60 \<Longrightarrow> s < 60 \<Longrightarrow> tc_carry (h, m, s, f) = Inr (h, m, s, f)"
  by (simp add: tc_carry_def and_then_def)

lemma carry_normalization_id:
  "m < 60 \<Longrightarrow> s < 60 \<Longrightarrow> carry_normalization (h, m, s, f) = (h, m, s, f)"
  by (simp add: carry_normalization_def)

text \<open>The two carry branches of the code are the carry normalization of the specification
  on all fields that keep the additions inside \<^verbatim>\<open>int\<close>.\<close>

lemma tc_carry_eq:
  assumes "\<bar>h\<bar> \<le> 1000000000" and "\<bar>m\<bar> \<le> 1000000000" and "\<bar>s\<bar> \<le> 1000000000"
  shows "tc_carry (h, m, s, f) = Inr (carry_normalization (h, m, s, f))"
proof -
  define m' where "m' = (if 60 \<le> s then m + s div 60 else m)"
  define s' where "s' = (if 60 \<le> s then s mod 60 else s)"
  have sdiv: "0 \<le> s div 60" "s div 60 \<le> 1000000000" if "60 \<le> s"
    using that assms(3) by simp_all
  have m'_range: "\<bar>m'\<bar> \<le> 2000000000"
    unfolding m'_def using assms(2) sdiv by (auto simp: abs_le_iff)
  have first: "(if 60 \<le> s
                then and_then (quot_int s 60) (\<lambda>q.
                     and_then (rem_int s 60) (\<lambda>r. Inr (add_int m q, r)))
                else Inr (m, s)) = Inr (m', s')"
  proof (cases "60 \<le> s")
    case True
    then have "0 \<le> s" by simp
    have "add_int m (s div 60) = m + s div 60"
      unfolding add_int_def using assms(2) sdiv [OF True]
      by (intro wrap32_id) (simp_all add: INT_MIN_def INT_MAX_def abs_le_iff)
    then show ?thesis
      using True by (simp add: quot_int_nonneg [OF \<open>0 \<le> s\<close>] rem_int_nonneg [OF \<open>0 \<le> s\<close>]
          and_then_def m'_def s'_def)
  next
    case False
    then show ?thesis by (simp add: m'_def s'_def)
  qed
  define h' where "h' = (if 60 \<le> m' then h + m' div 60 else h)"
  define m'' where "m'' = (if 60 \<le> m' then m' mod 60 else m')"
  have second: "(if 60 \<le> m'
                then and_then (quot_int m' 60) (\<lambda>q.
                     and_then (rem_int m' 60) (\<lambda>r. Inr (add_int h q, r)))
                else Inr (h, m')) = Inr (h', m'')"
  proof (cases "60 \<le> m'")
    case True
    then have "0 \<le> m'" by simp
    have "0 \<le> m' div 60" "m' div 60 \<le> 1000000000" using True m'_range by simp_all
    then have "add_int h (m' div 60) = h + m' div 60"
      unfolding add_int_def using assms(1)
      by (intro wrap32_id) (simp_all add: INT_MIN_def INT_MAX_def abs_le_iff)
    then show ?thesis
      using True by (simp add: quot_int_nonneg [OF \<open>0 \<le> m'\<close>] rem_int_nonneg [OF \<open>0 \<le> m'\<close>]
          and_then_def h'_def m''_def)
  next
    case False
    then show ?thesis by (simp add: h'_def m''_def)
  qed
  have "tc_carry (h, m, s, f) = Inr (h', m'', s', f)"
    unfolding tc_carry_def by (simp add: first second and_then_def)
  moreover have "carry_normalization (h, m, s, f) = (h', m'', s', f)"
    unfolding carry_normalization_def by (simp add: Let_def m'_def s'_def h'_def m''_def)
  ultimately show ?thesis by simp
qed

lemma tc_fields_eq:
  assumes fps: "1 \<le> round fps" "round fps * 3600 \<le> INT_MAX"
    and tot: "round (dmul (max 0 seconds) fps) \<le> INT_MAX"
  shows "tc_fields seconds fps =
    Inr (round (dmul (max 0 seconds) fps) div (round fps * 3600),
         round (dmul (max 0 seconds) fps) mod (round fps * 3600) div (round fps * 60),
         round (dmul (max 0 seconds) fps) mod (round fps * 3600) mod (round fps * 60) div round fps,
         round (dmul (max 0 seconds) fps) mod (round fps * 3600) mod (round fps * 60) mod round fps)"
proof -
  have T0: "0 \<le> round (dmul (max 0 seconds) fps)"
    using round_ge_1_nonneg [OF fps(1)] by (intro round_nonneg dmul_nonneg) simp_all
  have Fpos: "0 < round fps" using fps(1) by simp
  note fs = frame_split [OF T0 Fpos]
  show ?thesis
    unfolding tc_fields_def tc_divisions_eq [OF assms]
    using tc_carry_id [OF fs(4,7)] by (simp add: and_then_def)
qed

lemma time_to_tc_eq:
  assumes "1 \<le> round fps" "round fps * 3600 \<le> INT_MAX"
    and "round (dmul (max 0 seconds) fps) \<le> INT_MAX"
  shows "time_to_tc seconds fps =
    Inr (format_tc
         (round (dmul (max 0 seconds) fps) div (round fps * 3600))
         (round (dmul (max 0 seconds) fps) mod (round fps * 3600) div (round fps * 60))
         (round (dmul (max 0 seconds) fps) mod (round fps * 3600) mod (round fps * 60) div round fps)
         (round (dmul (max 0 seconds) fps) mod (round fps * 3600) mod (round fps * 60) mod round fps))"
  unfolding time_to_tc_def tc_fields_eq [OF assms] by (simp add: and_then_def)

subsection \<open>Evaluated rates and products\<close>

lemma rate_values:
  "fps_23_976 = 210895126300459 / 8796093022208"
  "fps_29_97 = 1054475631502295 / 35184372088832"
  "fps_59_94 = 1054475631502295 / 17592186044416"
  by (simp_all add: fps_23_976_def fps_29_97_def fps_59_94_def double_literal_def double_eval)

text \<open>The product of a time and the frame rate is rounded to \<^verbatim>\<open>double\<close> before
  \<^verbatim>\<open>std::round\<close>: for the \<^verbatim>\<open>double\<close> nearest to 0.3 and 25 frames per second the exact
  product is below 7.5 and the product in \<^verbatim>\<open>double\<close> is 7.5, so that the frame is 8.\<close>

lemma product_values:
  "double_literal (3 / 10) = 5404319552844595 / 18014398509481984"
  "dmul (5404319552844595 / 18014398509481984) 25 = 15 / 2"
  "dmul (14523 / 2) (1054475631502295 / 35184372088832) = 7477612107572183 / 34359738368"
  "dmul 7200 (1054475631502295 / 17592186044416) = 431568"
  by (simp_all add: double_literal_def dmul_def double_eval)

lemma rounded_product_frame:
  "c_round (double_literal (3 / 10) * 25) = 7"
  "tc_fields (double_literal (3 / 10)) 25 = Inr (0, 0, 0, 8)"
  "time_to_tc (double_literal (3 / 10)) 25 = Inr ''00:00:00:08''"
proof -
  show "c_round (double_literal (3 / 10) * 25) = 7"
    unfolding product_values by (simp add: c_round_def)
  have r: "1 \<le> round (25 :: real)" "round (25 :: real) * 3600 \<le> INT_MAX"
    "round (dmul (max 0 (5404319552844595 / 18014398509481984)) 25) \<le> INT_MAX"
    by (simp_all add: product_values round_def INT_MAX_def)
  show "tc_fields (double_literal (3 / 10)) 25 = Inr (0, 0, 0, 8)"
    unfolding product_values tc_fields_eq [OF r] by (simp add: product_values round_def)
  show "time_to_tc (double_literal (3 / 10)) 25 = Inr ''00:00:00:08''"
    unfolding product_values time_to_tc_eq [OF r]
    by (simp add: product_values round_def format_tc_def setw_fill0_def show_int_def
        digits.simps digit_char_def)
qed

text \<open>
  C3 as stated fails. A frame rate below 0.5 has the nominal rate 0, and the first division
  of \<^verbatim>\<open>time_to_tc\<close> divides by zero, where the rule of the claim yields fields; such a rate
  is positive, so that \<^verbatim>\<open>main\<close> passes it on. For the frame rate 1193047 the product
  \<open>fpsInt * 3600\<close> wraps around to 1904 in 32 bits, and one second becomes 626 hours and
  1143 frames. For \<open>10 ^ 8\<close> seconds at 30 frames per second the total frame count is not
  an \<^verbatim>\<open>int\<close>. The carry of 60 seconds into \<open>2 ^ 31 - 1\<close> minutes wraps around.
\<close>

theorem time_to_tc_outside_domain_counterexample:
  "(0 :: real) < 1 / 4 \<and> round (1 / 4 :: real) = 0
   \<and> tc_fields 1 (1 / 4) = Inl DivByZero \<and> time_to_tc 1 (1 / 4) = Inl DivByZero
   \<and> timeToTimecode 1 (1 / 4) = (0, 0, 0, 0)
   \<and> tc_fields 1 1193047 = Inr (626, 0, 0, 1143) \<and> timeToTimecode 1 1193047 = (0, 0, 1, 0)
   \<and> tc_fields 100000000 30 = Inl CastOutOfRange
   \<and> timeToTimecode 100000000 30 = (27777, 46, 40, 0)
   \<and> tc_carry (0, 2147483647, 60, 0) = Inr (0, - 2147483648, 0, 0)
   \<and> carry_normalization (0, 2147483647, 60, 0) = (35791394, 8, 0, 0)"
proof -
  have p: "dmul 1 (1 / 4) = 1 / 4" "dmul 1 1193047 = 1193047" "dmul 100000000 30 = 3000000000"
    by (simp_all add: dmul_def double_eval)
  have i: "to_int (c_round (1 / 4)) = Inr 0" "to_int (c_round 1193047) = Inr 1193047"
    "to_int (c_round 3000000000) = Inl CastOutOfRange"
    by (simp_all add: to_int_def c_round_def INT_MIN_def INT_MAX_def)
  have w: "mul_int 0 3600 = 0" "mul_int 1193047 3600 = 1904" "mul_int 1193047 60 = 71582820"
    by (simp_all add: mul_int_def wrap32_def)
  have q: "quot_int 0 0 = Inl DivByZero" "quot_int 1193047 1904 = Inr 626"
    "rem_int 1193047 1904 = Inr 1143" "quot_int 1143 71582820 = Inr 0"
    "rem_int 1143 71582820 = Inr 1143" "quot_int 1143 1193047 = Inr 0"
    "rem_int 1143 1193047 = Inr 1143"
    by (simp_all add: quot_int_def rem_int_def INT_MIN_def)
  have d: "tc_divisions 1 (1 / 4) = Inl DivByZero"
    unfolding tc_divisions_def Let_def by (simp add: p i w q and_then_Inr and_then_Inl)
  have r: "round (1 / 4 :: real) = 0" "round (1193047 :: real) = 1193047"
    "round (3000000000 :: real) = 3000000000" "round (30 :: real) = 30" "round (1 :: real) = 1"
    by (simp_all add: round_def)
  have t: "timeToTimecode 1 (1 / 4) = (0, 0, 0, 0)"
    unfolding timeToTimecode_def Let_def by (simp add: p r carry_normalization_def)
  have d2: "tc_divisions 1 1193047 = Inr (626, 0, 0, 1143)"
    unfolding tc_divisions_def Let_def by (simp add: p i w q and_then_Inr and_then_Inl)
  have t2: "timeToTimecode 1 1193047 = (0, 0, 1, 0)"
    unfolding timeToTimecode_def Let_def by (simp add: p r carry_normalization_def)
  have d3: "tc_divisions 100000000 30 = Inl CastOutOfRange"
    unfolding tc_divisions_def Let_def by (simp add: p i and_then_Inr and_then_Inl)
  have t3: "timeToTimecode 100000000 30 = (27777, 46, 40, 0)"
    unfolding timeToTimecode_def Let_def by (simp add: p r carry_normalization_def)
  have c: "tc_carry (0, 2147483647, 60, 0) = Inr (0, - 2147483648, 0, 0)"
    by (simp add: tc_carry_def and_then_Inr quot_int_def rem_int_def add_int_def wrap32_def
        INT_MIN_def)
  have n: "carry_normalization (0, 2147483647, 60, 0) = (35791394, 8, 0, 0)"
    by (simp add: carry_normalization_def)
  have f1: "tc_fields 1 (1 / 4) = Inl DivByZero" "time_to_tc 1 (1 / 4) = Inl DivByZero"
    using d by (simp_all add: tc_fields_def time_to_tc_def and_then_Inl)
  have f2: "tc_fields 1 1193047 = Inr (626, 0, 0, 1143)"
    using d2 by (simp add: tc_fields_def and_then_Inr tc_carry_def)
  have f3: "tc_fields 100000000 30 = Inl CastOutOfRange"
    using d3 by (simp add: tc_fields_def and_then_Inl)
  have z: "(0 :: real) < 1 / 4 \<and> round (1 / 4 :: real) = 0" using r by simp
  show ?thesis using z f1 t f2 t2 f3 t3 c n by blast
qed

text \<open>
  C3, amended. Wherever the nominal rate \<open>round fps\<close> is at least 1 and neither
  \<open>round fps * 3600\<close> nor the total frame count leaves the range of \<^verbatim>\<open>int\<close>, \<open>time_to_tc\<close>
  clamps negative seconds to 0, rounds the product \<open>seconds * fps\<close> (of two values of
  \<^verbatim>\<open>double\<close>) to the total frame count, rounds \<open>fps\<close> to the nominal rate, and derives
  hours, minutes, seconds and frames by successive divisions with remainder by
  \<open>fpsInt * 3600\<close>, \<open>fpsInt * 60\<close> and \<open>fpsInt\<close>: the fields of the code are those of the
  specification's \<open>timeToTimecode\<close>. The carry of the code, of the seconds into the minutes
  and of the minutes into the hours when a field reaches 60, is the carry normalization
  of the specification on all fields of at most nine digits.
\<close>

theorem time_to_tc_refines_spec:
  assumes "1 \<le> round fps" and "round fps * 3600 \<le> INT_MAX"
    and "round (dmul (max 0 seconds) fps) \<le> INT_MAX"
  shows "tc_fields seconds fps = Inr (timeToTimecode seconds fps)
    \<and> time_to_tc seconds fps =
        Inr (case timeToTimecode seconds fps of (h, m, s, f) \<Rightarrow> format_tc h m s f)
    \<and> (\<forall>h m s f. \<bar>h\<bar> \<le> 1000000000 \<and> \<bar>m\<bar> \<le> 1000000000 \<and> \<bar>s\<bar> \<le> 1000000000 \<longrightarrow>
          tc_carry (h, m, s, f) = Inr (carry_normalization (h, m, s, f)))"
proof -
  have T0: "0 \<le> round (dmul (max 0 seconds) fps)"
    using round_ge_1_nonneg [OF assms(1)] by (intro round_nonneg dmul_nonneg) simp_all
  have Fpos: "0 < round fps" using assms(1) by simp
  note fs = frame_split [OF T0 Fpos]
  have "timeToTimecode seconds fps =
    (round (dmul (max 0 seconds) fps) div (round fps * 3600),
     round (dmul (max 0 seconds) fps) mod (round fps * 3600) div (round fps * 60),
     round (dmul (max 0 seconds) fps) mod (round fps * 3600) mod (round fps * 60) div round fps,
     round (dmul (max 0 seconds) fps) mod (round fps * 3600) mod (round fps * 60) mod round fps)"
    unfolding timeToTimecode_def Let_def by (rule carry_normalization_id [OF fs(4,7)])
  then have *: "tc_fields seconds fps = Inr (timeToTimecode seconds fps)"
    using tc_fields_eq [OF assms] by simp
  then have "time_to_tc seconds fps =
        Inr (case timeToTimecode seconds fps of (h, m, s, f) \<Rightarrow> format_tc h m s f)"
    by (simp add: time_to_tc_def and_then_def split: prod.splits)
  with * show ?thesis using tc_carry_eq by blast
qed

theorem time_to_tc_refines_spec_witness:
  "1 \<le> round fps_29_97 \<and> round fps_29_97 * 3600 \<le> INT_MAX
   \<and> round (dmul (max 0 (14523 / 2)) fps_29_97) \<le> INT_MAX
   \<and> timeToTimecode (14523 / 2) fps_29_97 = (2, 0, 54, 7)
   \<and> tc_fields (14523 / 2) fps_29_97 = Inr (2, 0, 54, 7)
   \<and> time_to_tc (14523 / 2) fps_29_97 = Inr ''02:00:54:07''
   \<and> \<bar>0 :: int\<bar> \<le> 1000000000 \<and> \<bar>59 :: int\<bar> \<le> 1000000000 \<and> \<bar>75 :: int\<bar> \<le> 1000000000
   \<and> carry_normalization (0, 59, 75, 3) = (1, 0, 15, 3)
   \<and> tc_carry (0, 59, 75, 3) = Inr (1, 0, 15, 3)"
proof -
  have F: "round fps_29_97 = 30" by (simp add: rate_values round_def)
  have T: "round (dmul (max 0 (14523 / 2)) fps_29_97) = 217627"
    by (simp add: rate_values product_values round_def)
  have a: "1 \<le> round fps_29_97" unfolding F by simp
  have b: "round fps_29_97 * 3600 \<le> INT_MAX" unfolding F by (simp add: INT_MAX_def)
  have c: "round (dmul (max 0 (14523 / 2)) fps_29_97) \<le> INT_MAX"
    unfolding T by (simp add: INT_MAX_def)
  have d: "timeToTimecode (14523 / 2) fps_29_97 = (2, 0, 54, 7)"
    unfolding timeToTimecode_def Let_def T F by (simp add: carry_normalization_def)
  have e: "format_tc 2 0 54 7 = ''02:00:54:07''"
    by (simp add: format_tc_def setw_fill0_def show_int_def digits.simps digit_char_def)
  have g: "\<bar>0 :: int\<bar> \<le> 1000000000 \<and> \<bar>59 :: int\<bar> \<le> 1000000000 \<and> \<bar>75 :: int\<bar> \<le> 1000000000"
    by simp
  have k: "carry_normalization (0, 59, 75, 3) = (1, 0, 15, 3)"
    by (simp add: carry_normalization_def)
  note inst = time_to_tc_refines_spec [OF a b c]
  have first: "tc_fields (14523 / 2) fps_29_97 = Inr (2, 0, 54, 7)"
    using inst [THEN conjunct1] unfolding d .
  have second: "time_to_tc (14523 / 2) fps_29_97 = Inr ''02:00:54:07''"
    using inst [THEN conjunct2, THEN conjunct1] unfolding d by (simp add: e)
  have third: "tc_carry (0, 59, 75, 3) = Inr (1, 0, 15, 3)"
    using inst [THEN conjunct2, THEN conjunct2, THEN spec [where x = 0],
        THEN spec [where x = 59], THEN spec [where x = 75], THEN spec [where x = 3],
        THEN mp, OF g]
    unfolding k .
  show ?thesis using a b c d g k first second third by blast
qed



text \<open>
  C10 as stated fails: the nominal rate \<open>2 ^ 28\<close> is at least 1, but its product with 3600
  wraps around to 0 in 32 bits (its product with 60 to \<open>- 2 ^ 30\<close>), and the first division
  divides by zero.
\<close>

theorem divisions_overflow_counterexample:
  "1 \<le> c_round 268435456 \<and> tc_divisions 0 268435456 = Inl DivByZero"
  by (simp add: tc_divisions_def dmul_def double_round_def and_then_def to_int_def c_round_def
      INT_MIN_def INT_MAX_def mul_int_def wrap32_def quot_int_def)

text \<open>
  C10, amended. For every time and every frame rate whose nominal rate \<open>round fps\<close> is at
  least 1 and at most 596523 (so that \<open>fps_int * 3600\<close> is an \<^verbatim>\<open>int\<close>), and whose total frame
  count is an \<^verbatim>\<open>int\<close>, the divisions raise no error and their fields satisfy
  \<open>0 \<le> minutes < 60\<close>, \<open>0 \<le> seconds < 60\<close> and \<open>0 \<le> frames < round fps\<close>; neither carry branch
  is entered, and the carry step returns the fields as they are.
\<close>

theorem divisions_in_range:
  assumes "1 \<le> c_round fps" and "c_round fps \<le> 596523"
    and "c_round (dmul (max 0 seconds) fps) \<le> 2147483647"
  shows "\<exists>h m s f. tc_divisions seconds fps = Inr (h, m, s, f)
    \<and> 0 \<le> h \<and> 0 \<le> m \<and> m < 60 \<and> 0 \<le> s \<and> s < 60 \<and> 0 \<le> f \<and> real_of_int f < c_round fps
    \<and> \<not> 60 \<le> s \<and> \<not> 60 \<le> m
    \<and> tc_carry (h, m, s, f) = Inr (h, m, s, f)"
proof -
  have fps0: "0 \<le> fps"
  proof (rule ccontr)
    assume "\<not> 0 \<le> fps"
    then have "c_round fps \<le> 0" by (simp add: c_round_def ceiling_le_iff)
    with assms(1) show False by simp
  qed
  have cr: "c_round fps = of_int (round fps)" using fps0 by (rule c_round_nonneg)
  have a: "1 \<le> round fps" using assms(1) unfolding cr by simp
  have "round fps \<le> 596523" using assms(2) unfolding cr by simp
  then have b: "round fps * 3600 \<le> INT_MAX" by (simp add: INT_MAX_def)
  have prod0: "0 \<le> dmul (max 0 seconds) fps" using fps0 by (intro dmul_nonneg) simp_all
  have c: "round (dmul (max 0 seconds) fps) \<le> INT_MAX"
    using assms(3) unfolding c_round_nonneg [OF prod0] by (simp add: INT_MAX_def)
  have T0: "0 \<le> round (dmul (max 0 seconds) fps)" using prod0 by (rule round_nonneg)
  have Fpos: "0 < round fps" using a by simp
  note fs = frame_split [OF T0 Fpos]
  have "real_of_int (round (dmul (max 0 seconds) fps) mod (round fps * 3600) mod (round fps * 60)
      mod round fps) < c_round fps"
    unfolding cr using fs(9) by simp
  moreover have "\<not> 60 \<le> round (dmul (max 0 seconds) fps) mod (round fps * 3600) mod (round fps * 60)
      div round fps"
    using fs(7) by simp
  moreover have "\<not> 60 \<le> round (dmul (max 0 seconds) fps) mod (round fps * 3600) div (round fps * 60)"
    using fs(4) by simp
  ultimately show ?thesis
    using tc_divisions_eq [OF a b c] fs(1,3,4,6,7,8) tc_carry_id [OF fs(4,7)] by blast
qed

theorem divisions_in_range_witness:
  "1 \<le> c_round fps_29_97 \<and> c_round fps_29_97 \<le> 596523
   \<and> c_round (dmul (max 0 (14523 / 2)) fps_29_97) \<le> 2147483647
   \<and> tc_divisions (14523 / 2) fps_29_97 = Inr (2, 0, 54, 7)
   \<and> tc_carry (2, 0, 54, 7) = Inr (2, 0, 54, 7)"
proof -
  have a: "1 \<le> c_round fps_29_97"
    by (simp add: rate_values c_round_def)
  have b: "c_round fps_29_97 \<le> 596523"
    by (simp add: rate_values c_round_def)
  have c: "c_round (dmul (max 0 (14523 / 2)) fps_29_97) \<le> 2147483647"
    by (simp add: rate_values product_values c_round_def)
  have r: "1 \<le> round fps_29_97"
    "round fps_29_97 * 3600 \<le> INT_MAX"
    "round (dmul (max 0 (14523 / 2)) fps_29_97) \<le> INT_MAX"
    by (simp_all add: rate_values product_values round_def INT_MAX_def)
  have d: "tc_divisions (14523 / 2) fps_29_97 = Inr (2, 0, 54, 7)"
    unfolding tc_divisions_eq [OF r] by (simp add: rate_values product_values round_def)
  from divisions_in_range [OF a b c] d
  have "tc_carry (2, 0, 54, 7) = Inr (2, 0, 54, 7)" by simp
  with a b c d show ?thesis by blast
qed
section \<open>Properties of the range trimmer and of one pass of the loop\<close>

subsection \<open>The example inputs, evaluated\<close>

lemma time_base_value:
  "av_q2d (1, 90000) = 819855292164869 / 73786976294838206464"
  by (simp add: av_q2d_def ddiv_def double_eval)

lemma pts_values:
  "pts_to_seconds 0 (1, 90000) = 0"
  "pts_to_seconds 90000 (1, 90000) = 1"
  "pts_to_seconds 180000 (1, 90000) = 2"
  "pts_to_seconds 450000 (1, 90000) = 5"
  "pts_to_seconds 540000 (1, 90000) = 6"
  "pts_to_seconds 900000 (1, 90000) = 10"
  "pts_to_seconds 472500 (1, 90000) = 21 / 4"
  "pts_to_seconds (- 180000) (1, 90000) = - 2"
  "pts_to_seconds (- 90000) (1, 90000) = - 1"
  "pts_to_seconds 90900 (1, 90000) = 4548635623644201 / 4503599627370496"
  "pts_to_seconds 94500 (1, 90000) = 4728779608739021 / 4503599627370496"
  "pts_to_seconds 9000000000000000000 (1, 90000) = 100000000000000"
  by (simp_all add: pts_to_seconds_def AV_NOPTS_VALUE_def time_base_value int_to_double_def
      dmul_def double_eval)

lemma offset_values:
  "ddiv 0 1000 = 0"
  "ddiv 1 1000 = 1152921504606847 / 1152921504606846976"
  "ddiv 500 1000 = 1 / 2"
  "ddiv 1000 1000 = 1"
  "ddiv 1050 1000 = 4728779608739021 / 4503599627370496"
  "ddiv 2000 1000 = 2"
  "ddiv 3000 1000 = 3"
  "ddiv 4000 1000 = 4"
  by (simp_all add: ddiv_def double_eval)

lemma sum_values:
  "dadd 0 0 = 0" "dadd 0 3 = 3"
  "dadd 1 (4728779608739021 / 4503599627370496) = 2308094809027379 / 1125899906842624"
  "dadd 1 3 = 4"
  "dadd 2 0 = 2"
  "dadd 5 0 = 5" "dadd 5 2 = 7" "dadd 5 3 = 8" "dadd 5 4 = 9"
  "dadd 6 0 = 6" "dadd 6 1 = 7"
  "dadd 10 0 = 10"
  "dadd (21 / 4) 0 = 21 / 4"
  "dadd (- 1) (1 / 2) = - (1 / 2)" "dadd (- 1) 3 = 2"
  "dadd 100000000000000 0 = 100000000000000"
  "dadd 100000000000000 (1152921504606847 / 1152921504606846976) = 100000000000000"
  "dadd (4728779608739021 / 4503599627370496) 1 = 2308094809027379 / 1125899906842624"
  "dadd (4548635623644201 / 4503599627370496) 1 = 1131529406376837 / 562949953421312"
  by (simp_all add: dadd_def double_eval)

lemma difference_values:
  "dsub 1 0 = 1" "dsub 2 0 = 2" "dsub 4 0 = 4" "dsub 5 0 = 5" "dsub 6 0 = 6" "dsub 7 0 = 7"
  "dsub 8 0 = 8" "dsub 9 0 = 9" "dsub 10 0 = 10" "dsub 0 0 = 0"
  "dsub (2308094809027379 / 1125899906842624) 0 = 2308094809027379 / 1125899906842624"
  "dsub (4728779608739021 / 4503599627370496) 0 = 4728779608739021 / 4503599627370496"
  "dsub (4548635623644201 / 4503599627370496) 0 = 4548635623644201 / 4503599627370496"
  "dsub 5 (1 / 2) = 9 / 2" "dsub 8 (1 / 2) = 15 / 2" "dsub (21 / 4) (1 / 2) = 19 / 4"
  "dsub (9 / 2) 1 = 7 / 2" "dsub 5 1 = 4" "dsub (19 / 4) 1 = 15 / 4"
  "dsub 2 1 = 1" "dsub (7 / 2) 1 = 5 / 2" "dsub 3 1 = 2" "dsub 4 1 = 3"
  "dsub (- 2) (- 3) = 1" "dsub (- 1) (- 3) = 2" "dsub (- (1 / 2)) (- 3) = 5 / 2"
  by (simp_all add: dsub_def double_eval)

lemma frame_products:
  "dmul 0 30 = 0" "dmul 1 30 = 30" "dmul 2 30 = 60" "dmul 3 30 = 90" "dmul 4 30 = 120"
  "dmul 5 30 = 150" "dmul 6 30 = 180" "dmul 7 30 = 210" "dmul 8 30 = 240" "dmul 9 30 = 270"
  "dmul (5 / 2) 30 = 75" "dmul (7 / 2) 30 = 105" "dmul (15 / 4) 30 = 225 / 2"
  "dmul (2308094809027379 / 1125899906842624) 30 = 8655355533852671 / 140737488355328"
  "dmul (4728779608739021 / 4503599627370496) 30 = 63 / 2"
  "dmul (4548635623644201 / 4503599627370496) 30 = 8528691794332877 / 281474976710656"
  "dmul (1131529406376837 / 562949953421312) 30 = 4243235273913139 / 70368744177664"
  by (simp_all add: dmul_def double_eval)

lemmas frame_eval = show_frame_def clear_frame_def decoded_frame_def display_times_def
  AV_NOPTS_VALUE_def Let_def pts_values offset_values sum_values

lemmas tc_eval = time_to_tc_eq frame_products round_def INT_MAX_def format_tc_def
  setw_fill0_def show_int_def digits.simps digit_char_def

lemma time_to_tc_30:
  "time_to_tc 0 30 = Inr ''00:00:00:00''"
  "time_to_tc 1 30 = Inr ''00:00:01:00''"
  "time_to_tc 2 30 = Inr ''00:00:02:00''"
  "time_to_tc 3 30 = Inr ''00:00:03:00''"
  "time_to_tc 4 30 = Inr ''00:00:04:00''"
  "time_to_tc 5 30 = Inr ''00:00:05:00''"
  "time_to_tc 6 30 = Inr ''00:00:06:00''"
  "time_to_tc 7 30 = Inr ''00:00:07:00''"
  "time_to_tc 8 30 = Inr ''00:00:08:00''"
  "time_to_tc 9 30 = Inr ''00:00:09:00''"
  "time_to_tc (5 / 2) 30 = Inr ''00:00:02:15''"
  "time_to_tc (7 / 2) 30 = Inr ''00:00:03:15''"
  "time_to_tc (15 / 4) 30 = Inr ''00:00:03:23''"
  by (simp_all add: tc_eval)

text \<open>Times that are not multiples of a frame: 1.05 s, 1.01 s and the sums \<open>1.0 + 1.05\<close> and
  \<open>1.01 + 1.0\<close> in \<^verbatim>\<open>double\<close>. The sum \<open>1.0 + 1.05\<close> is below 2.05, and its product with
  30 is below 61.5.\<close>

lemma time_to_tc_30_rounded:
  "time_to_tc (2308094809027379 / 1125899906842624) 30 = Inr ''00:00:02:01''"
  "time_to_tc (4728779608739021 / 4503599627370496) 30 = Inr ''00:00:01:02''"
  "time_to_tc (4548635623644201 / 4503599627370496) 30 = Inr ''00:00:01:00''"
  "time_to_tc (1131529406376837 / 562949953421312) 30 = Inr ''00:00:02:00''"
  by (simp_all add: tc_eval)

lemma png_names:
  "generate_png_filename 0 ''sub'' = ''sub00000.png''"
  "generate_png_filename 1 ''sub'' = ''sub00001.png''"
  by (simp_all add: generate_png_filename_def setw_fill0_def show_int_def digits.simps
      digit_char_def eval_nat_numeral)

lemma example_save:
  "save_bitmap_as_png (png_written example_settings) example_bitmap path"
  "save_bitmap_as_png (png_written range_settings) example_bitmap path"
  "save_bitmap_as_png (png_written early_settings) example_bitmap path"
  by (simp_all add: save_bitmap_as_png_def example_settings_def range_settings_def
      early_settings_def example_bitmap_def)

lemma example_frames:
  "show_frame 90000 0xFFFFFFFF 0xFFFFFFFF =
     \<lparr>bitmap = Some example_bitmap, pts = 90000, timestamp = 1, start_time = 1, end_time = 1,
      pos_x = 100, pos_y = 200\<rparr>"
  "show_frame 450000 0 3000 =
     \<lparr>bitmap = Some example_bitmap, pts = 450000, timestamp = 5, start_time = 5, end_time = 8,
      pos_x = 100, pos_y = 200\<rparr>"
  "show_frame 450000 2000 4000 =
     \<lparr>bitmap = Some example_bitmap, pts = 450000, timestamp = 5, start_time = 7, end_time = 9,
      pos_x = 100, pos_y = 200\<rparr>"
  "show_frame 450000 3000 4000 =
     \<lparr>bitmap = Some example_bitmap, pts = 450000, timestamp = 5, start_time = 8, end_time = 9,
      pos_x = 100, pos_y = 200\<rparr>"
  "show_frame 540000 0 1000 =
     \<lparr>bitmap = Some example_bitmap, pts = 540000, timestamp = 6, start_time = 6, end_time = 7,
      pos_x = 100, pos_y = 200\<rparr>"
  "clear_frame 180000 =
     \<lparr>bitmap = None, pts = 180000, timestamp = 2, start_time = 2, end_time = 2,
      pos_x = 0, pos_y = 0\<rparr>"
  "clear_frame 450000 =
     \<lparr>bitmap = None, pts = 450000, timestamp = 5, start_time = 5, end_time = 5,
      pos_x = 0, pos_y = 0\<rparr>"
  "clear_frame 540000 =
     \<lparr>bitmap = None, pts = 540000, timestamp = 6, start_time = 6, end_time = 6,
      pos_x = 0, pos_y = 0\<rparr>"
  "clear_frame 900000 =
     \<lparr>bitmap = None, pts = 900000, timestamp = 10, start_time = 10, end_time = 10,
      pos_x = 0, pos_y = 0\<rparr>"
  "clear_frame 472500 =
     \<lparr>bitmap = None, pts = 472500, timestamp = 21 / 4, start_time = 21 / 4, end_time = 21 / 4,
      pos_x = 0, pos_y = 0\<rparr>"
  by (simp_all add: frame_eval)

text \<open>Frames whose times are not multiples of a frame, a frame at time 0, and frames
  before time 0.\<close>

lemma example_frames_rounded:
  "show_frame 90000 1050 3000 =
     \<lparr>bitmap = Some example_bitmap, pts = 90000, timestamp = 1,
      start_time = 2308094809027379 / 1125899906842624, end_time = 4,
      pos_x = 100, pos_y = 200\<rparr>"
  "show_frame 94500 0xFFFFFFFF 0xFFFFFFFF =
     \<lparr>bitmap = Some example_bitmap, pts = 94500,
      timestamp = 4728779608739021 / 4503599627370496,
      start_time = 4728779608739021 / 4503599627370496,
      end_time = 4728779608739021 / 4503599627370496, pos_x = 100, pos_y = 200\<rparr>"
  "show_frame 90900 0xFFFFFFFF 0xFFFFFFFF =
     \<lparr>bitmap = Some example_bitmap, pts = 90900,
      timestamp = 4548635623644201 / 4503599627370496,
      start_time = 4548635623644201 / 4503599627370496,
      end_time = 4548635623644201 / 4503599627370496, pos_x = 100, pos_y = 200\<rparr>"
  "show_frame 0 0 3000 =
     \<lparr>bitmap = Some example_bitmap, pts = 0, timestamp = 0, start_time = 0, end_time = 3,
      pos_x = 100, pos_y = 200\<rparr>"
  "show_frame 9000000000000000000 0 1 =
     \<lparr>bitmap = Some example_bitmap, pts = 9000000000000000000, timestamp = 100000000000000,
      start_time = 100000000000000, end_time = 100000000000000, pos_x = 100, pos_y = 200\<rparr>"
  "show_frame (- 180000) 0xFFFFFFFF 0xFFFFFFFF =
     \<lparr>bitmap = Some example_bitmap, pts = - 180000, timestamp = - 2, start_time = - 2,
      end_time = - 2, pos_x = 100, pos_y = 200\<rparr>"
  "show_frame (- 90000) 500 3000 =
     \<lparr>bitmap = Some example_bitmap, pts = - 90000, timestamp = - 1, start_time = - (1 / 2),
      end_time = 2, pos_x = 100, pos_y = 200\<rparr>"
  by (simp_all add: frame_eval)

lemmas loop_eval = main_events_def main_loop.simps loop_body_def display_interval_def
  display_times_usable_def adjust_timestamp_def adjust_timestamp_for_range_def clear_time_def
  empty_frame_def and_then_def difference_values sum_values

lemma example_settings_fields:
  "opt_ss example_settings = None" "opt_to example_settings = None"
  "video_start_time example_settings = 0" "bdn_fps example_settings = 30"
  "base_name example_settings = ''sub''" "output_dir example_settings = ''out''"
  by (simp_all add: example_settings_def)

lemma range_settings_fields:
  "opt_ss range_settings = Some 1" "opt_to range_settings = Some 5"
  "video_start_time range_settings = 1 / 2" "bdn_fps range_settings = 30"
  "base_name range_settings = ''sub''" "output_dir range_settings = ''out''"
  by (simp_all add: range_settings_def)

lemma early_settings_fields:
  "opt_ss early_settings = None" "opt_to early_settings = None"
  "video_start_time early_settings = - 3" "bdn_fps early_settings = 30"
  "base_name early_settings = ''sub''" "output_dir early_settings = ''out''"
  by (simp_all add: early_settings_def)

lemma example_bitmap_fields:
  "bm_width example_bitmap = 1" "bm_height example_bitmap = 1"
  by (simp_all add: example_bitmap_def)

subsection \<open>The range trimmer\<close>

text \<open>
  C5. Clip-range trimming: an event is dropped if the range start is set and the event
  starts before it, or if the range end is set and the event starts at or after it;
  otherwise the end is clamped to the range end and the range start is subtracted from both
  times (a subtraction in \<^verbatim>\<open>double\<close>); nothing else is changed.
\<close>

theorem clip_range_trimming:
  "adjust_timestamp_for_range start end rangeStart rangeEnd =
     (if (\<exists>s. rangeStart = Some s \<and> start < s) \<or> (\<exists>t. rangeEnd = Some t \<and> t \<le> start)
      then None
      else Some (case rangeStart of Some s \<Rightarrow> dsub start s | None \<Rightarrow> start,
                 case rangeStart of
                   Some s \<Rightarrow>
                     dsub (case rangeEnd of Some t \<Rightarrow> if t < end then t else end | None \<Rightarrow> end) s
                 | None \<Rightarrow> (case rangeEnd of Some t \<Rightarrow> if t < end then t else end | None \<Rightarrow> end)))"
  by (cases rangeStart; cases rangeEnd) (auto simp: adjust_timestamp_for_range_def)

theorem clip_range_trimming_witness:
  "adjust_timestamp_for_range 0 (3 / 2) (Some 1) (Some 4) = None
   \<and> adjust_timestamp_for_range 2 (7 / 2) (Some 1) (Some 4) = Some (1, 5 / 2)
   \<and> adjust_timestamp_for_range 3 (9 / 2) (Some 1) (Some 4) = Some (2, 3)
   \<and> adjust_timestamp_for_range 5 (13 / 2) (Some 1) (Some 4) = None
   \<and> adjust_timestamp_for_range 5 (13 / 2) None None = Some (5, 13 / 2)"
  using clip_range_trimming [of 0 "3 / 2" "Some 1" "Some 4"]
    clip_range_trimming [of 2 "7 / 2" "Some 1" "Some 4"]
    clip_range_trimming [of 3 "9 / 2" "Some 1" "Some 4"]
    clip_range_trimming [of 5 "13 / 2" "Some 1" "Some 4"]
    clip_range_trimming [of 5 "13 / 2" None None]
  by (simp add: difference_values)

subsection \<open>One pass of the loop\<close>

lemma adjust_timestamp_for_range_None [simp]:
  "adjust_timestamp_for_range start end None None = Some (start, end)"
  by (simp add: adjust_timestamp_for_range_def)

lemma loop_body_show:
  assumes "bitmap f = Some bm" and "bm_width bm \<noteq> 0" and "bm_height bm \<noteq> 0"
  shows "loop_body cfg f nxt has_next (events, frame_index) =
    (case adjust_timestamp_for_range
            (fst (display_interval (video_start_time cfg) f nxt has_next))
            (snd (display_interval (video_start_time cfg) f nxt has_next))
            (opt_ss cfg) (opt_to cfg) of
       None \<Rightarrow> Inr (events, frame_index)
     | Some (s, e) \<Rightarrow>
         if e \<le> s \<or> \<not> save_bitmap_as_png (png_written cfg) bm
              (output_dir cfg @ ''/'' @ generate_png_filename frame_index (base_name cfg))
         then Inr (events, frame_index)
         else and_then (time_to_tc s (bdn_fps cfg)) (\<lambda>tc_in.
              and_then (time_to_tc e (bdn_fps cfg)) (\<lambda>tc_out.
                Inr (events @
                     [\<lparr>in_tc = tc_in, out_tc = tc_out,
                       png_file = generate_png_filename frame_index (base_name cfg),
                       ev_x = pos_x f, ev_y = pos_y f,
                       ev_width = bm_width bm, ev_height = bm_height bm\<rparr>],
                     frame_index + 1))))"
  using assms
  by (simp add: loop_body_def Let_def split: option.splits prod.splits)

text \<open>A bitmap of width or height 0 is skipped by the loop, and no PNG file is written for
  it: the equation holds without the two conditions.\<close>

lemma loop_body_bitmap:
  assumes "bitmap f = Some bm"
  shows "loop_body cfg f nxt has_next (events, frame_index) =
    (case adjust_timestamp_for_range
            (fst (display_interval (video_start_time cfg) f nxt has_next))
            (snd (display_interval (video_start_time cfg) f nxt has_next))
            (opt_ss cfg) (opt_to cfg) of
       None \<Rightarrow> Inr (events, frame_index)
     | Some (s, e) \<Rightarrow>
         if e \<le> s \<or> \<not> save_bitmap_as_png (png_written cfg) bm
              (output_dir cfg @ ''/'' @ generate_png_filename frame_index (base_name cfg))
         then Inr (events, frame_index)
         else and_then (time_to_tc s (bdn_fps cfg)) (\<lambda>tc_in.
              and_then (time_to_tc e (bdn_fps cfg)) (\<lambda>tc_out.
                Inr (events @
                     [\<lparr>in_tc = tc_in, out_tc = tc_out,
                       png_file = generate_png_filename frame_index (base_name cfg),
                       ev_x = pos_x f, ev_y = pos_y f,
                       ev_width = bm_width bm, ev_height = bm_height bm\<rparr>],
                     frame_index + 1))))"
proof (cases "bm_width bm = 0 \<or> bm_height bm = 0")
  case True
  then have skip: "loop_body cfg f nxt has_next (events, frame_index) = Inr (events, frame_index)"
    using assms by (auto simp: loop_body_def)
  have "\<not> save_bitmap_as_png (png_written cfg) bm path" for path
    using True by (auto simp: save_bitmap_as_png_def)
  then show ?thesis unfolding skip by (simp split: option.splits)
next
  case False
  then show ?thesis using loop_body_show [OF assms] by simp
qed

lemma loop_body_clear:
  assumes "bitmap f = None"
  shows "loop_body cfg f nxt has_next (events, frame_index) =
    (if 0 < timestamp f \<and> events \<noteq> []
     then and_then (time_to_tc (clear_time cfg f) (bdn_fps cfg)) (\<lambda>tc.
            Inr (butlast events @ [(last events)\<lparr>out_tc := tc\<rparr>], frame_index))
     else Inr (events, frame_index))"
  using assms by (simp add: loop_body_def)

lemma display_interval_usable:
  assumes "display_times_usable f"
  shows "display_interval vs f nxt has_next = (dsub (start_time f) vs, dsub (end_time f) vs)"
  using assms by (simp add: display_interval_def adjust_timestamp_def)

lemma display_interval_lookahead:
  assumes "\<not> display_times_usable f"
  shows "display_interval vs f nxt has_next =
    (dsub (timestamp f) vs,
     if has_next
     then (if bitmap nxt \<noteq> None \<and> display_times_usable nxt
           then dsub (start_time nxt) vs else dsub (timestamp nxt) vs)
     else dadd (dsub (timestamp f) vs) 1)"
  using assms by (auto simp: display_interval_def adjust_timestamp_def Let_def)

lemma decoded_frame_fields:
  "bitmap (decoded_frame (Some (bm, x, y)) p tb sdt edt) = Some bm"
  "bitmap (decoded_frame None p tb sdt edt) = None"
  "timestamp (decoded_frame c p tb sdt edt) = pts_to_seconds p tb"
  "start_time (decoded_frame c p tb sdt edt) = fst (display_times (pts_to_seconds p tb) sdt edt)"
  "end_time (decoded_frame c p tb sdt edt) = snd (display_times (pts_to_seconds p tb) sdt edt)"
  "pos_x (decoded_frame (Some (bm, x, y)) p tb sdt edt) = x"
  "pos_y (decoded_frame (Some (bm, x, y)) p tb sdt edt) = y"
  by (auto simp: decoded_frame_def pts_to_seconds_def Let_def split: prod.splits option.splits)

text \<open>The test of the loop on a decoded frame: both offsets are set, the display start is
  positive and the display end is above it. Offsets that are not both set, or an end
  offset that is not above the start offset, fail the test.\<close>

lemma decoded_frame_usable:
  "display_times_usable (decoded_frame c p tb sdt edt) \<longleftrightarrow>
     sdt \<noteq> 0xFFFFFFFF \<and> edt \<noteq> 0xFFFFFFFF
     \<and> 0 < dadd (pts_to_seconds p tb) (ddiv (real (unat sdt)) 1000)
     \<and> dadd (pts_to_seconds p tb) (ddiv (real (unat sdt)) 1000)
         < dadd (pts_to_seconds p tb) (ddiv (real (unat edt)) 1000)"
  by (auto simp: display_times_usable_def decoded_frame_fields display_times_def)

lemma display_end_mono:
  assumes "edt \<le> sdt"
  shows "dadd t (ddiv (real (unat edt)) 1000) \<le> dadd t (ddiv (real (unat sdt)) 1000)"
proof -
  have "unat edt \<le> unat sdt" using assms by (simp only: word_le_nat_alt)
  then have "real (unat edt) \<le> real (unat sdt)" by (simp only: of_nat_le_iff)
  then have "ddiv (real (unat edt)) 1000 \<le> ddiv (real (unat sdt)) 1000"
    by (rule ddiv_mono) simp
  then show ?thesis by (intro dadd_mono) simp_all
qed

lemma invalid_offsets_unusable:
  assumes "sdt = 0xFFFFFFFF \<or> edt = 0xFFFFFFFF \<or> edt \<le> sdt"
  shows "\<not> display_times_usable (decoded_frame c p tb sdt edt)"
proof
  assume "display_times_usable (decoded_frame c p tb sdt edt)"
  then have set: "sdt \<noteq> 0xFFFFFFFF" "edt \<noteq> 0xFFFFFFFF"
    and lt: "dadd (pts_to_seconds p tb) (ddiv (real (unat sdt)) 1000)
         < dadd (pts_to_seconds p tb) (ddiv (real (unat edt)) 1000)"
    unfolding decoded_frame_usable by simp_all
  from assms set have "edt \<le> sdt" by simp
  from display_end_mono [OF this, of "pts_to_seconds p tb"] lt show False by simp
qed

lemma usable_start_time:
  assumes "display_times_usable (decoded_frame c p tb sdt edt)"
  shows "start_time (decoded_frame c p tb sdt edt) =
    dadd (pts_to_seconds p tb) (ddiv (real (unat sdt)) 1000)"
proof -
  from assms have "sdt \<noteq> 0xFFFFFFFF" "edt \<noteq> 0xFFFFFFFF"
    unfolding decoded_frame_usable by simp_all
  then show ?thesis by (simp add: decoded_frame_fields display_times_def)
qed

text \<open>
  C6 as stated fails: the loop takes the display times of a frame for valid only if, beside
  both offsets being set and the end above the start, the display start is positive. In a
  stream that starts at -3 s, the frame at -1 s with the offsets 500 ms and 3000 ms has the
  display start -0.5 s; the frame without display times before it, at -2 s, ends at the
  timestamp of this frame (timecode 00:00:02:00) and not at its display start
  (00:00:02:15).
\<close>

theorem nonpositive_next_start_counterexample:
  "(500 :: 32 word) \<noteq> 0xFFFFFFFF \<and> (3000 :: 32 word) \<noteq> 0xFFFFFFFF \<and> (500 :: 32 word) < 3000
   \<and> \<not> display_times_usable (show_frame (- 180000) 0xFFFFFFFF 0xFFFFFFFF)
   \<and> loop_body early_settings (show_frame (- 180000) 0xFFFFFFFF 0xFFFFFFFF)
        (show_frame (- 90000) 500 3000) True ([], 0) =
       Inr ([\<lparr>in_tc = ''00:00:01:00'', out_tc = ''00:00:02:00'', png_file = ''sub00000.png'',
              ev_x = 100, ev_y = 200, ev_width = 1, ev_height = 1\<rparr>], 1)
   \<and> time_to_tc (dsub (start_time (show_frame (- 90000) 500 3000))
        (video_start_time early_settings)) (bdn_fps early_settings) = Inr ''00:00:02:15''"
  by (simp add: example_frames_rounded loop_eval early_settings_fields example_bitmap_fields
      example_save png_names time_to_tc_30)

text \<open>
  C6, amended, with the display times of a frame valid when they pass the test of the loop
  (both offsets set, the display start \<open>primary + startOffset\<close> positive, the display end
  above the display start). A frame with a bitmap whose display times are not valid starts
  at its own timestamp minus the start of the stream, and ends where the lookahead says:
  at the display start of the next frame when that frame has a bitmap and valid display
  times, at the timestamp of the next frame when it has a bitmap without valid display
  times or is a clear command, and one second after the start when there is no next frame.
  The range trimmer receives exactly this interval, and the event appended carries its
  timecodes. Every frame whose offsets are not both set, or whose end offset is not above
  its start offset, is such a frame, and the display start of a frame with valid display
  times is \<open>primary + startOffset\<close>, a sum in \<^verbatim>\<open>double\<close>.
\<close>

theorem lookahead_interval:
  fixes cfg :: Settings and f nxt :: SubtitleFrame and has_next :: bool
  assumes "bitmap f = Some bm" and "\<not> display_times_usable f"
  defines "start \<equiv> dsub (timestamp f) (video_start_time cfg)"
  defines "end \<equiv>
    (if has_next \<and> bitmap nxt \<noteq> None \<and> display_times_usable nxt
       then dsub (start_time nxt) (video_start_time cfg)
     else if has_next \<and> bitmap nxt \<noteq> None then dsub (timestamp nxt) (video_start_time cfg)
     else if has_next then dsub (timestamp nxt) (video_start_time cfg)
     else dadd start 1)"
  shows "display_interval (video_start_time cfg) f nxt has_next = (start, end)
    \<and> loop_body cfg f nxt has_next (events, frame_index) =
      (case adjust_timestamp_for_range start end (opt_ss cfg) (opt_to cfg) of
         None \<Rightarrow> Inr (events, frame_index)
       | Some (s, e) \<Rightarrow>
           if e \<le> s \<or> \<not> save_bitmap_as_png (png_written cfg) bm
                (output_dir cfg @ ''/'' @ generate_png_filename frame_index (base_name cfg))
           then Inr (events, frame_index)
           else and_then (time_to_tc s (bdn_fps cfg)) (\<lambda>tc_in.
                and_then (time_to_tc e (bdn_fps cfg)) (\<lambda>tc_out.
                  Inr (events @
                       [\<lparr>in_tc = tc_in, out_tc = tc_out,
                         png_file = generate_png_filename frame_index (base_name cfg),
                         ev_x = pos_x f, ev_y = pos_y f,
                         ev_width = bm_width bm, ev_height = bm_height bm\<rparr>],
                       frame_index + 1))))
    \<and> (\<forall>c p tb sdt edt. sdt = 0xFFFFFFFF \<or> edt = 0xFFFFFFFF \<or> edt \<le> sdt \<longrightarrow>
          \<not> display_times_usable (decoded_frame c p tb sdt edt))
    \<and> (\<forall>c p tb sdt edt. display_times_usable (decoded_frame c p tb sdt edt) \<longrightarrow>
          start_time (decoded_frame c p tb sdt edt) =
            dadd (pts_to_seconds p tb) (ddiv (real (unat sdt)) 1000))"
proof -
  have di: "display_interval (video_start_time cfg) f nxt has_next = (start, end)"
    unfolding display_interval_lookahead [OF assms(2)] start_def end_def by auto
  have "loop_body cfg f nxt has_next (events, frame_index) =
      (case adjust_timestamp_for_range start end (opt_ss cfg) (opt_to cfg) of
         None \<Rightarrow> Inr (events, frame_index)
       | Some (s, e) \<Rightarrow>
           if e \<le> s \<or> \<not> save_bitmap_as_png (png_written cfg) bm
                (output_dir cfg @ ''/'' @ generate_png_filename frame_index (base_name cfg))
           then Inr (events, frame_index)
           else and_then (time_to_tc s (bdn_fps cfg)) (\<lambda>tc_in.
                and_then (time_to_tc e (bdn_fps cfg)) (\<lambda>tc_out.
                  Inr (events @
                       [\<lparr>in_tc = tc_in, out_tc = tc_out,
                         png_file = generate_png_filename frame_index (base_name cfg),
                         ev_x = pos_x f, ev_y = pos_y f,
                         ev_width = bm_width bm, ev_height = bm_height bm\<rparr>],
                       frame_index + 1))))"
    unfolding loop_body_bitmap [OF assms(1)] di by simp
  with di show ?thesis using invalid_offsets_unusable usable_start_time by blast
qed

text \<open>An instance: the last frame of a stream, at 1.05 s without display times, ends at
  \<open>1.05 + 1.0\<close>, a sum in \<^verbatim>\<open>double\<close> whose product with 30 is below 61.5.\<close>

theorem lookahead_interval_witness:
  "bitmap (show_frame 94500 0xFFFFFFFF 0xFFFFFFFF) = Some example_bitmap
   \<and> \<not> display_times_usable (show_frame 94500 0xFFFFFFFF 0xFFFFFFFF)
   \<and> display_interval (video_start_time example_settings)
        (show_frame 94500 0xFFFFFFFF 0xFFFFFFFF) empty_frame False =
       (4728779608739021 / 4503599627370496, 2308094809027379 / 1125899906842624)
   \<and> loop_body example_settings (show_frame 94500 0xFFFFFFFF 0xFFFFFFFF) empty_frame
        False ([], 0) =
       Inr ([\<lparr>in_tc = ''00:00:01:02'', out_tc = ''00:00:02:01'', png_file = ''sub00000.png'',
              ev_x = 100, ev_y = 200, ev_width = 1, ev_height = 1\<rparr>], 1)
   \<and> ((0xFFFFFFFF :: 32 word) = 0xFFFFFFFF \<or> (0xFFFFFFFF :: 32 word) = 0xFFFFFFFF
        \<or> (0xFFFFFFFF :: 32 word) \<le> 0xFFFFFFFF)
   \<and> \<not> display_times_usable
         (decoded_frame (Some (example_bitmap, 100, 200)) 94500 (1, 90000) 0xFFFFFFFF 0xFFFFFFFF)
   \<and> display_times_usable
         (decoded_frame (Some (example_bitmap, 100, 200)) 90000 (1, 90000) 1050 3000)
   \<and> start_time (decoded_frame (Some (example_bitmap, 100, 200)) 90000 (1, 90000) 1050 3000) =
       dadd (pts_to_seconds 90000 (1, 90000)) (ddiv (real (unat (1050 :: 32 word))) 1000)
   \<and> dadd (pts_to_seconds 90000 (1, 90000)) (ddiv (real (unat (1050 :: 32 word))) 1000) =
       2308094809027379 / 1125899906842624"
proof -
  have a: "bitmap (show_frame 94500 0xFFFFFFFF 0xFFFFFFFF) = Some example_bitmap"
    by (simp add: example_frames_rounded)
  have d: "\<not> display_times_usable (show_frame 94500 0xFFFFFFFF 0xFFFFFFFF)"
    by (simp add: example_frames_rounded display_times_usable_def)
  have e: "(0xFFFFFFFF :: 32 word) = 0xFFFFFFFF \<or> (0xFFFFFFFF :: 32 word) = 0xFFFFFFFF
        \<or> (0xFFFFFFFF :: 32 word) \<le> 0xFFFFFFFF"
    by simp
  note inst = lookahead_interval [OF a d, where cfg = example_settings
        and has_next = False and nxt = empty_frame and events = "[]" and frame_index = 0]
  have first: "display_interval (video_start_time example_settings)
        (show_frame 94500 0xFFFFFFFF 0xFFFFFFFF) empty_frame False =
       (4728779608739021 / 4503599627370496, 2308094809027379 / 1125899906842624)"
    using inst [THEN conjunct1]
    by (simp add: example_frames_rounded example_settings_fields difference_values sum_values)
  have second: "loop_body example_settings (show_frame 94500 0xFFFFFFFF 0xFFFFFFFF) empty_frame
        False ([], 0) =
       Inr ([\<lparr>in_tc = ''00:00:01:02'', out_tc = ''00:00:02:01'', png_file = ''sub00000.png'',
              ev_x = 100, ev_y = 200, ev_width = 1, ev_height = 1\<rparr>], 1)"
    using inst [THEN conjunct2, THEN conjunct1]
    by (simp add: example_frames_rounded example_settings_fields example_bitmap_fields
        example_save png_names time_to_tc_30_rounded and_then_def difference_values sum_values)
  have third: "\<not> display_times_usable
         (decoded_frame (Some (example_bitmap, 100, 200)) 94500 (1, 90000) 0xFFFFFFFF 0xFFFFFFFF)"
    using inst [THEN conjunct2, THEN conjunct2, THEN conjunct1] e by blast
  have u: "display_times_usable
         (decoded_frame (Some (example_bitmap, 100, 200)) 90000 (1, 90000) 1050 3000)"
    using example_frames_rounded(1) unfolding show_frame_def
    by (simp add: display_times_usable_def)
  have fourth: "start_time
        (decoded_frame (Some (example_bitmap, 100, 200)) 90000 (1, 90000) 1050 3000) =
       dadd (pts_to_seconds 90000 (1, 90000)) (ddiv (real (unat (1050 :: 32 word))) 1000)"
    using inst [THEN conjunct2, THEN conjunct2, THEN conjunct2] u by blast
  have v: "dadd (pts_to_seconds 90000 (1, 90000)) (ddiv (real (unat (1050 :: 32 word))) 1000) =
       2308094809027379 / 1125899906842624"
    by (simp add: pts_values offset_values sum_values)
  show ?thesis using a d e first second third u fourth v by blast
qed

text \<open>
  C1 as stated fails. A frame with the display offsets 0 ms and 3000 ms at 5 s gives an
  event from 5 s to 8 s, and the clear command at 6 s that follows rewrites the end of this
  event to 6 s. Moreover the loop uses the display times only when the display start is
  positive and the display end, a sum in \<^verbatim>\<open>double\<close>, is above it: the frame at 0 s with the
  offsets 0 ms and 3000 ms ends at the start of the next frame, at 5 s and not at 3 s, and
  for the frame at \<open>10 ^ 14\<close> s with the offsets 0 ms and 1 ms the two sums are the same
  \<^verbatim>\<open>double\<close>, so that its display times are not used either: as the last frame of a
  stream that starts 5 s before it, it is shown for one second.
\<close>

theorem clear_rewrites_explicit_end_counterexample:
  "display_times_usable (show_frame 450000 0 3000)
   \<and> loop_body example_settings (show_frame 450000 0 3000) (clear_frame 540000) True ([], 0) =
       Inr ([\<lparr>in_tc = ''00:00:05:00'', out_tc = ''00:00:08:00'', png_file = ''sub00000.png'',
              ev_x = 100, ev_y = 200, ev_width = 1, ev_height = 1\<rparr>], 1)
   \<and> main_events example_settings
        [show_frame 450000 0 3000, clear_frame 540000, clear_frame 900000] =
       Inr [\<lparr>in_tc = ''00:00:05:00'', out_tc = ''00:00:06:00'', png_file = ''sub00000.png'',
             ev_x = 100, ev_y = 200, ev_width = 1, ev_height = 1\<rparr>]
   \<and> (0 :: 32 word) < 3000 \<and> \<not> display_times_usable (show_frame 0 0 3000)
   \<and> loop_body example_settings (show_frame 0 0 3000) (show_frame 450000 0 3000) True ([], 0) =
       Inr ([\<lparr>in_tc = ''00:00:00:00'', out_tc = ''00:00:05:00'', png_file = ''sub00000.png'',
              ev_x = 100, ev_y = 200, ev_width = 1, ev_height = 1\<rparr>], 1)
   \<and> (0 :: 32 word) < 1 \<and> \<not> display_times_usable (show_frame 9000000000000000000 0 1)
   \<and> loop_body (example_settings\<lparr>video_start_time := 99999999999995\<rparr>)
        (show_frame 9000000000000000000 0 1) empty_frame False ([], 0) =
       Inr ([\<lparr>in_tc = ''00:00:05:00'', out_tc = ''00:00:06:00'', png_file = ''sub00000.png'',
              ev_x = 100, ev_y = 200, ev_width = 1, ev_height = 1\<rparr>], 1)"
proof -
  have late: "dsub 100000000000000 99999999999995 = 5" "dadd 5 1 = 6"
    by (simp_all add: dsub_def dadd_def double_eval)
  have save: "save_bitmap_as_png
      (png_written (example_settings\<lparr>video_start_time := 99999999999995\<rparr>)) example_bitmap path"
    for path
    by (simp add: save_bitmap_as_png_def example_settings_def example_bitmap_def)
  have fields: "opt_ss (example_settings\<lparr>video_start_time := 99999999999995\<rparr>) = None"
    "opt_to (example_settings\<lparr>video_start_time := 99999999999995\<rparr>) = None"
    "video_start_time (example_settings\<lparr>video_start_time := 99999999999995\<rparr>)
      = 99999999999995"
    "bdn_fps (example_settings\<lparr>video_start_time := 99999999999995\<rparr>) = 30"
    "base_name (example_settings\<lparr>video_start_time := 99999999999995\<rparr>) = ''sub''"
    "output_dir (example_settings\<lparr>video_start_time := 99999999999995\<rparr>) = ''out''"
    by (simp_all add: example_settings_def)
  show ?thesis
    by (simp add: example_frames example_frames_rounded loop_eval example_settings_fields
        example_bitmap_fields example_save png_names time_to_tc_30 late save fields)
qed

text \<open>
  C1, amended. For every decoded frame with a bitmap whose two display offsets are set,
  with a positive display start \<open>primary + startOffset\<close> and a display end
  \<open>primary + endOffset\<close> above it (sums in \<^verbatim>\<open>double\<close>; the end offset is then above the
  start offset), one pass of the loop hands the interval
  \<open>(primary + startOffset - streamStart, primary + endOffset - streamStart)\<close> to the range
  trimmer and, unless the trimmer drops it, the trimmed interval is empty or the PNG file
  cannot be written, appends the event with the timecodes of the trimmed interval, whatever
  the lookahead frame is. A later clear command with a positive timestamp that finds this
  event last in the list replaces its end by the timecode of its own time: its timestamp
  minus the start of the stream, clamped to the end of the range, minus the start of the
  range.
\<close>

theorem explicit_offsets_interval:
  fixes cfg :: Settings and nxt :: SubtitleFrame and has_next :: bool
    and bm :: BitmapData and x y p :: int and tb :: "int \<times> int" and sdt edt :: "32 word"
  defines "f \<equiv> decoded_frame (Some (bm, x, y)) p tb sdt edt"
  defines "display_start \<equiv> dadd (timestamp f) (ddiv (real (unat sdt)) 1000)"
  defines "display_end \<equiv> dadd (timestamp f) (ddiv (real (unat edt)) 1000)"
  assumes "sdt \<noteq> 0xFFFFFFFF" and "edt \<noteq> 0xFFFFFFFF"
    and "0 < display_start" and "display_start < display_end"
  shows "sdt < edt
    \<and> loop_body cfg f nxt has_next (events, frame_index) =
      (case adjust_timestamp_for_range (dsub display_start (video_start_time cfg))
              (dsub display_end (video_start_time cfg)) (opt_ss cfg) (opt_to cfg) of
         None \<Rightarrow> Inr (events, frame_index)
       | Some (s, e) \<Rightarrow>
           if e \<le> s \<or> \<not> save_bitmap_as_png (png_written cfg) bm
                (output_dir cfg @ ''/'' @ generate_png_filename frame_index (base_name cfg))
           then Inr (events, frame_index)
           else and_then (time_to_tc s (bdn_fps cfg)) (\<lambda>tc_in.
                and_then (time_to_tc e (bdn_fps cfg)) (\<lambda>tc_out.
                  Inr (events @
                       [\<lparr>in_tc = tc_in, out_tc = tc_out,
                         png_file = generate_png_filename frame_index (base_name cfg),
                         ev_x = x, ev_y = y,
                         ev_width = bm_width bm, ev_height = bm_height bm\<rparr>],
                       frame_index + 1))))
    \<and> (\<forall>c ev evs n nxt' has_next'. bitmap c = None \<and> 0 < timestamp c \<longrightarrow>
          loop_body cfg c nxt' has_next' (evs @ [ev], n) =
            and_then
              (time_to_tc
                 (case opt_ss cfg of
                    Some s \<Rightarrow>
                      dsub (case opt_to cfg of
                              Some t \<Rightarrow>
                                if t < dsub (timestamp c) (video_start_time cfg) then t
                                else dsub (timestamp c) (video_start_time cfg)
                            | None \<Rightarrow> dsub (timestamp c) (video_start_time cfg)) s
                  | None \<Rightarrow>
                      (case opt_to cfg of
                         Some t \<Rightarrow>
                           if t < dsub (timestamp c) (video_start_time cfg) then t
                           else dsub (timestamp c) (video_start_time cfg)
                       | None \<Rightarrow> dsub (timestamp c) (video_start_time cfg)))
                 (bdn_fps cfg))
              (\<lambda>tc. Inr (evs @ [ev\<lparr>out_tc := tc\<rparr>], n)))"
proof -
  have ts: "timestamp f = pts_to_seconds p tb" by (simp add: f_def decoded_frame_fields)
  have usable: "display_times_usable f"
    unfolding f_def decoded_frame_usable
    using assms(4-7) unfolding display_start_def display_end_def ts by simp
  have order: "sdt < edt"
  proof (rule ccontr)
    assume "\<not> sdt < edt"
    then have "edt \<le> sdt" by simp
    from display_end_mono [OF this, of "timestamp f"] assms(7)
    show False unfolding display_start_def display_end_def by simp
  qed
  have bm: "bitmap f = Some bm" by (simp add: f_def decoded_frame_fields)
  have times: "start_time f = display_start" "end_time f = display_end"
    using assms(4,5)
    by (simp_all add: f_def decoded_frame_fields display_times_def display_start_def
        display_end_def)
  have pos: "pos_x f = x" "pos_y f = y" by (simp_all add: f_def decoded_frame_fields)
  have di: "display_interval (video_start_time cfg) f nxt has_next =
      (dsub display_start (video_start_time cfg), dsub display_end (video_start_time cfg))"
    unfolding display_interval_usable [OF usable] times by simp
  have show_part: "loop_body cfg f nxt has_next (events, frame_index) =
      (case adjust_timestamp_for_range (dsub display_start (video_start_time cfg))
              (dsub display_end (video_start_time cfg)) (opt_ss cfg) (opt_to cfg) of
         None \<Rightarrow> Inr (events, frame_index)
       | Some (s, e) \<Rightarrow>
           if e \<le> s \<or> \<not> save_bitmap_as_png (png_written cfg) bm
                (output_dir cfg @ ''/'' @ generate_png_filename frame_index (base_name cfg))
           then Inr (events, frame_index)
           else and_then (time_to_tc s (bdn_fps cfg)) (\<lambda>tc_in.
                and_then (time_to_tc e (bdn_fps cfg)) (\<lambda>tc_out.
                  Inr (events @
                       [\<lparr>in_tc = tc_in, out_tc = tc_out,
                         png_file = generate_png_filename frame_index (base_name cfg),
                         ev_x = x, ev_y = y,
                         ev_width = bm_width bm, ev_height = bm_height bm\<rparr>],
                       frame_index + 1))))"
    unfolding loop_body_bitmap [OF bm] di pos by simp
  have clear_part: "loop_body cfg c nxt' has_next' (evs @ [ev], n) =
            and_then
              (time_to_tc
                 (case opt_ss cfg of
                    Some s \<Rightarrow>
                      dsub (case opt_to cfg of
                              Some t \<Rightarrow>
                                if t < dsub (timestamp c) (video_start_time cfg) then t
                                else dsub (timestamp c) (video_start_time cfg)
                            | None \<Rightarrow> dsub (timestamp c) (video_start_time cfg)) s
                  | None \<Rightarrow>
                      (case opt_to cfg of
                         Some t \<Rightarrow>
                           if t < dsub (timestamp c) (video_start_time cfg) then t
                           else dsub (timestamp c) (video_start_time cfg)
                       | None \<Rightarrow> dsub (timestamp c) (video_start_time cfg)))
                 (bdn_fps cfg))
              (\<lambda>tc. Inr (evs @ [ev\<lparr>out_tc := tc\<rparr>], n))"
    if "bitmap c = None" "0 < timestamp c" for c ev evs n nxt' has_next'
    unfolding loop_body_clear [OF that(1)] using that(2)
    by (simp add: clear_time_def adjust_timestamp_def Let_def)
  show ?thesis using order show_part clear_part by blast
qed

text \<open>An instance with a clip range from 1 s to 5 s and a stream that starts at 0.5 s: the
  frame at 5 s with the offsets 0 ms and 3000 ms is shown from 4.5 s to 7.5 s of the
  stream, which the range turns into 3.5 s to 4 s; the clear command at 5.25 s, 4.75 s of
  the stream, rewrites the end to 3.75 s.\<close>

theorem explicit_offsets_interval_witness:
  "(0 :: 32 word) \<noteq> 0xFFFFFFFF \<and> (3000 :: 32 word) \<noteq> 0xFFFFFFFF
   \<and> 0 < dadd (timestamp (show_frame 450000 0 3000)) (ddiv (real (unat (0 :: 32 word))) 1000)
   \<and> dadd (timestamp (show_frame 450000 0 3000)) (ddiv (real (unat (0 :: 32 word))) 1000)
       < dadd (timestamp (show_frame 450000 0 3000)) (ddiv (real (unat (3000 :: 32 word))) 1000)
   \<and> (0 :: 32 word) < 3000
   \<and> loop_body range_settings (show_frame 450000 0 3000) (clear_frame 472500) True ([], 0) =
       Inr ([\<lparr>in_tc = ''00:00:03:15'', out_tc = ''00:00:04:00'', png_file = ''sub00000.png'',
              ev_x = 100, ev_y = 200, ev_width = 1, ev_height = 1\<rparr>], 1)
   \<and> bitmap (clear_frame 472500) = None \<and> 0 < timestamp (clear_frame 472500)
   \<and> loop_body range_settings (clear_frame 472500) (clear_frame 900000) True
        ([] @ [\<lparr>in_tc = ''00:00:03:15'', out_tc = ''00:00:04:00'', png_file = ''sub00000.png'',
              ev_x = 100, ev_y = 200, ev_width = 1, ev_height = 1\<rparr>], 1) =
       Inr ([\<lparr>in_tc = ''00:00:03:15'', out_tc = ''00:00:03:23'', png_file = ''sub00000.png'',
              ev_x = 100, ev_y = 200, ev_width = 1, ev_height = 1\<rparr>], 1)"
proof -
  have ts: "timestamp (decoded_frame (Some (example_bitmap, 100, 200)) 450000 (1, 90000) 0 3000)
      = 5"
    by (simp add: decoded_frame_fields pts_values)
  have a: "(0 :: 32 word) \<noteq> 0xFFFFFFFF" and b: "(3000 :: 32 word) \<noteq> 0xFFFFFFFF" by simp_all
  have c: "0 < dadd (timestamp (decoded_frame (Some (example_bitmap, 100, 200)) 450000
      (1, 90000) 0 3000)) (ddiv (real (unat (0 :: 32 word))) 1000)"
    by (simp add: ts offset_values sum_values)
  have d: "dadd (timestamp (decoded_frame (Some (example_bitmap, 100, 200)) 450000
        (1, 90000) 0 3000)) (ddiv (real (unat (0 :: 32 word))) 1000)
      < dadd (timestamp (decoded_frame (Some (example_bitmap, 100, 200)) 450000
        (1, 90000) 0 3000)) (ddiv (real (unat (3000 :: 32 word))) 1000)"
    by (simp add: ts offset_values sum_values)
  note inst = explicit_offsets_interval [where cfg = range_settings
      and x = 100 and y = 200 and nxt = "clear_frame 472500" and has_next = True
      and events = "[]" and frame_index = 0, OF a b c d]
  have order: "(0 :: 32 word) < 3000" using inst [THEN conjunct1] .
  have cl: "bitmap (clear_frame 472500) = None \<and> 0 < timestamp (clear_frame 472500)"
    by (simp add: example_frames)
  have first: "loop_body range_settings (show_frame 450000 0 3000) (clear_frame 472500) True
      ([], 0) =
       Inr ([\<lparr>in_tc = ''00:00:03:15'', out_tc = ''00:00:04:00'', png_file = ''sub00000.png'',
              ev_x = 100, ev_y = 200, ev_width = 1, ev_height = 1\<rparr>], 1)"
    unfolding show_frame_def
    using inst [THEN conjunct2, THEN conjunct1]
    by (simp add: ts offset_values sum_values difference_values range_settings_fields
        example_bitmap_fields example_save png_names time_to_tc_30 and_then_def
        adjust_timestamp_for_range_def)
  have second: "loop_body range_settings (clear_frame 472500) (clear_frame 900000) True
        ([] @ [\<lparr>in_tc = ''00:00:03:15'', out_tc = ''00:00:04:00'', png_file = ''sub00000.png'',
              ev_x = 100, ev_y = 200, ev_width = 1, ev_height = 1\<rparr>], 1) =
       Inr ([\<lparr>in_tc = ''00:00:03:15'', out_tc = ''00:00:03:23'', png_file = ''sub00000.png'',
              ev_x = 100, ev_y = 200, ev_width = 1, ev_height = 1\<rparr>], 1)"
    using inst [THEN conjunct2, THEN conjunct2, THEN spec [where x = "clear_frame 472500"],
        THEN spec [where x = "\<lparr>in_tc = ''00:00:03:15'', out_tc = ''00:00:04:00'',
          png_file = ''sub00000.png'', ev_x = 100, ev_y = 200, ev_width = 1, ev_height = 1\<rparr>"],
        THEN spec [where x = "[]"], THEN spec [where x = 1],
        THEN spec [where x = "clear_frame 900000"], THEN spec [where x = True], THEN mp, OF cl]
    by (simp add: example_frames range_settings_fields difference_values time_to_tc_30
        and_then_def)
  show ?thesis
    using a b c d order first second cl unfolding show_frame_def by blast
qed

text \<open>The frame at 1 s with the offsets 1050 ms and 3000 ms: its display start is the sum
  \<open>1.0 + 1.05\<close> in \<^verbatim>\<open>double\<close>, below 2.05, and the event starts at frame 61.\<close>

lemma explicit_offsets_rounded_start:
  "display_times_usable (show_frame 90000 1050 3000)
   \<and> loop_body example_settings (show_frame 90000 1050 3000) empty_frame False ([], 0) =
       Inr ([\<lparr>in_tc = ''00:00:02:01'', out_tc = ''00:00:04:00'', png_file = ''sub00000.png'',
              ev_x = 100, ev_y = 200, ev_width = 1, ev_height = 1\<rparr>], 1)"
  by (simp add: example_frames_rounded loop_eval example_settings_fields example_bitmap_fields
      example_save png_names time_to_tc_30 time_to_tc_30_rounded)

text \<open>
  C9 as stated fails: the loop keeps no record of whether an event is open. After the frame
  at 1 s the clear command at 2 s ends the only event; the clear command at 5 s, which
  arrives when no event is open, rewrites the end of that event from 2 s to 5 s.
\<close>

theorem second_clear_rewrites_counterexample:
  "bitmap (clear_frame 450000) = None \<and> 0 < timestamp (clear_frame 450000)
   \<and> loop_body example_settings (clear_frame 180000) (clear_frame 450000) True
        ([\<lparr>in_tc = ''00:00:01:00'', out_tc = ''00:00:02:00'', png_file = ''sub00000.png'',
           ev_x = 100, ev_y = 200, ev_width = 1, ev_height = 1\<rparr>], 1) =
       Inr ([\<lparr>in_tc = ''00:00:01:00'', out_tc = ''00:00:02:00'', png_file = ''sub00000.png'',
              ev_x = 100, ev_y = 200, ev_width = 1, ev_height = 1\<rparr>], 1)
   \<and> loop_body example_settings (clear_frame 450000) (clear_frame 540000) True
        ([\<lparr>in_tc = ''00:00:01:00'', out_tc = ''00:00:02:00'', png_file = ''sub00000.png'',
           ev_x = 100, ev_y = 200, ev_width = 1, ev_height = 1\<rparr>], 1) =
       Inr ([\<lparr>in_tc = ''00:00:01:00'', out_tc = ''00:00:05:00'', png_file = ''sub00000.png'',
              ev_x = 100, ev_y = 200, ev_width = 1, ev_height = 1\<rparr>], 1)
   \<and> main_events example_settings
        [show_frame 90000 0xFFFFFFFF 0xFFFFFFFF, clear_frame 180000, clear_frame 450000,
         clear_frame 540000] =
       Inr [\<lparr>in_tc = ''00:00:01:00'', out_tc = ''00:00:05:00'', png_file = ''sub00000.png'',
             ev_x = 100, ev_y = 200, ev_width = 1, ev_height = 1\<rparr>]"
  by (simp add: example_frames loop_eval example_settings_fields example_bitmap_fields
      example_save png_names time_to_tc_30)

text \<open>
  C9, amended. A frame without a bitmap that arrives while the list of events is empty
  produces no event, changes nothing and raises no error, and the loop advances to the next
  frame. (When the list is not empty, a clear command with a positive timestamp rewrites
  the end of its last event, whether or not an earlier clear command already ended it.)
\<close>

theorem clear_on_empty_list:
  assumes "bitmap f = None"
  shows "loop_body cfg f nxt has_next ([], frame_index) = Inr ([], frame_index)
    \<and> main_loop cfg f nxt has_next source ([], frame_index) =
        (case get_next_subtitle_frame source of
           (has_next', nxt', source') \<Rightarrow>
             if bitmap nxt \<noteq> None \<or> has_next'
             then main_loop cfg nxt nxt' has_next' source' ([], frame_index)
             else Inr ([], frame_index))"
proof -
  have body: "loop_body cfg f nxt has_next ([], frame_index) = Inr ([], frame_index)"
    unfolding loop_body_clear [OF assms] by simp
  show ?thesis
    using body by (subst main_loop.simps) simp
qed

theorem clear_on_empty_list_witness:
  "bitmap (clear_frame 180000) = None
   \<and> loop_body example_settings (clear_frame 180000) (clear_frame 450000) True ([], 0) =
       Inr ([], 0)
   \<and> main_loop example_settings (clear_frame 180000) (clear_frame 450000) True [] ([], 0) =
       Inr ([], 0)
   \<and> main_events example_settings [clear_frame 180000, clear_frame 450000] = Inr []"
proof -
  have a: "bitmap (clear_frame 180000) = None" by (simp add: example_frames)
  have b: "bitmap (clear_frame 450000) = None" by (simp add: example_frames)
  note first = clear_on_empty_list [OF a, where cfg = example_settings
      and nxt = "clear_frame 450000" and has_next = True and source = "[]" and frame_index = 0]
  have loop: "main_loop example_settings (clear_frame 180000) (clear_frame 450000) True []
      ([], 0) = Inr ([], 0)"
    using first b by simp
  have "main_events example_settings [clear_frame 180000, clear_frame 450000] = Inr []"
    using loop by (simp add: main_events_def and_then_def)
  with a first loop show ?thesis by simp
qed

text \<open>Where the loop appends an event, the interval it hands to \<^verbatim>\<open>time_to_tc\<close> is not
  empty: this is the test for a zero duration on the path of a frame with a bitmap. The
  path of a clear command has no such test.\<close>

lemma appended_interval_not_empty:
  assumes "bitmap f = Some bm"
    and "loop_body cfg f nxt has_next (events, frame_index) = Inr (events', frame_index')"
    and "events' \<noteq> events"
  shows "\<exists>s e tc_in tc_out. s < e
    \<and> time_to_tc s (bdn_fps cfg) = Inr tc_in \<and> time_to_tc e (bdn_fps cfg) = Inr tc_out
    \<and> events' = events @
          [\<lparr>in_tc = tc_in, out_tc = tc_out,
            png_file = generate_png_filename frame_index (base_name cfg),
            ev_x = pos_x f, ev_y = pos_y f, ev_width = bm_width bm, ev_height = bm_height bm\<rparr>]"
proof (cases "bm_width bm = 0 \<or> bm_height bm = 0")
  case True
  with assms show ?thesis by (auto simp: loop_body_def)
next
  case False
  then have w: "bm_width bm \<noteq> 0" and h: "bm_height bm \<noteq> 0" by simp_all
  note body = assms(2) [unfolded loop_body_show [OF assms(1) w h]]
  show ?thesis
  proof (cases "adjust_timestamp_for_range
            (fst (display_interval (video_start_time cfg) f nxt has_next))
            (snd (display_interval (video_start_time cfg) f nxt has_next))
            (opt_ss cfg) (opt_to cfg)")
    case None
    with body assms(3) show ?thesis by simp
  next
    case (Some se)
    obtain s e where se: "se = (s, e)" by (cases se)
    show ?thesis
    proof (cases "e \<le> s \<or> \<not> save_bitmap_as_png (png_written cfg) bm
                (output_dir cfg @ ''/'' @ generate_png_filename frame_index (base_name cfg))")
      case True
      with body Some se assms(3) show ?thesis by auto
    next
      case False
      then have "s < e" by simp
      with False body Some se show ?thesis
        by (auto simp: and_then_def split: sum.splits)
    qed
  qed
qed

text \<open>
  C2 fails on the code: the test for an empty interval is made when an event is appended,
  on the times in seconds, and a clear command rewrites the end of the last event without
  it. A frame at 5 s with the display offsets 2000 ms and 4000 ms is shown from 7 s to 9 s;
  the clear command at 6 s rewrites its end to 6 s, before its start. Two frames 10 ms apart
  give an event whose two timecodes are the same.
\<close>

theorem clear_before_start_gives_negative_duration:
  "main_events example_settings
     [show_frame 450000 2000 4000, clear_frame 540000, clear_frame 900000] =
   Inr [\<lparr>in_tc = ''00:00:07:00'', out_tc = ''00:00:06:00'', png_file = ''sub00000.png'',
         ev_x = 100, ev_y = 200, ev_width = 1, ev_height = 1\<rparr>]
   \<and> main_events example_settings
     [show_frame 90000 0xFFFFFFFF 0xFFFFFFFF, show_frame 90900 0xFFFFFFFF 0xFFFFFFFF] =
   Inr [\<lparr>in_tc = ''00:00:01:00'', out_tc = ''00:00:01:00'', png_file = ''sub00000.png'',
         ev_x = 100, ev_y = 200, ev_width = 1, ev_height = 1\<rparr>,
        \<lparr>in_tc = ''00:00:01:00'', out_tc = ''00:00:02:00'', png_file = ''sub00001.png'',
         ev_x = 100, ev_y = 200, ev_width = 1, ev_height = 1\<rparr>]"
  by (simp add: example_frames example_frames_rounded loop_eval example_settings_fields
      example_bitmap_fields example_save png_names time_to_tc_30 time_to_tc_30_rounded)
section \<open>The order of the events\<close>

text \<open>
  C8 as stated fails: the loop never reorders, and the start of an event is not the
  timestamp of its frame when the frame has usable display times. Two frames in decode
  order at 5 s and 6 s, the first with a start offset of 3000 ms, give events that start at
  8 s and then at 6 s.
\<close>

theorem start_times_decrease_counterexample:
  "timestamp (show_frame 450000 3000 4000) < timestamp (show_frame 540000 0 1000)
   \<and> main_events example_settings [show_frame 450000 3000 4000, show_frame 540000 0 1000] =
       Inr [\<lparr>in_tc = ''00:00:08:00'', out_tc = ''00:00:09:00'', png_file = ''sub00000.png'',
             ev_x = 100, ev_y = 200, ev_width = 1, ev_height = 1\<rparr>,
            \<lparr>in_tc = ''00:00:06:00'', out_tc = ''00:00:07:00'', png_file = ''sub00001.png'',
             ev_x = 100, ev_y = 200, ev_width = 1, ev_height = 1\<rparr>]"
  by (simp add: example_frames loop_eval example_settings_fields example_bitmap_fields
      example_save png_names time_to_tc_30)

lemma fst_display_interval:
  "fst (display_interval vs f nxt has_next) = adjust_timestamp (frame_start f) vs"
  by (simp add: display_interval_def frame_start_def Let_def)

lemma adjust_timestamp_for_range_start:
  assumes "adjust_timestamp_for_range a b ss to = Some (s, e)"
  shows "s = (case ss of Some r \<Rightarrow> dsub a r | None \<Rightarrow> a)"
  using assms by (auto simp: adjust_timestamp_for_range_def Let_def split: if_splits option.splits)

text \<open>One pass of the loop leaves the starts of the events as they are, or appends the
  timecode of the start of the current frame.\<close>

lemma loop_body_in_tc:
  assumes "loop_body cfg f nxt has_next (evs, i) = Inr (evs', i')"
  shows "\<exists>fs. (fs = [] \<or> fs = [f] \<and> bitmap f \<noteq> None)
    \<and> map (\<lambda>e. Inr (in_tc e)) evs' =
        map (\<lambda>e. Inr (in_tc e)) evs @ map (\<lambda>f. time_to_tc (event_start cfg f) (bdn_fps cfg)) fs"
proof (cases "bitmap f")
  case None
  show ?thesis
  proof (cases "0 < timestamp f \<and> evs \<noteq> []")
    case True
    with assms obtain tc where "evs' = butlast evs @ [(last evs)\<lparr>out_tc := tc\<rparr>]"
      unfolding loop_body_clear [OF None] by (auto simp: and_then_def split: sum.splits)
    then have "map in_tc evs' = map in_tc (butlast evs @ [last evs])" by simp
    also have "\<dots> = map in_tc evs" using True by simp
    finally have "map Inr (map in_tc evs') = (map Inr (map in_tc evs) :: (error + string) list)"
      by simp
    then have "map (\<lambda>e. Inr (in_tc e) :: error + string) evs' = map (\<lambda>e. Inr (in_tc e)) evs"
      by (simp add: o_def)
    then show ?thesis by (intro exI [of _ "[]"]) simp
  next
    case False
    with assms have "evs' = evs" unfolding loop_body_clear [OF None] by auto
    then show ?thesis by (intro exI [of _ "[]"]) simp
  qed
next
  case (Some bm)
  show ?thesis
  proof (cases "bm_width bm = 0 \<or> bm_height bm = 0")
    case True
    with assms Some have "evs' = evs" by (auto simp: loop_body_def)
    then show ?thesis by (intro exI [of _ "[]"]) simp
  next
    case False
    then have w: "bm_width bm \<noteq> 0" and h: "bm_height bm \<noteq> 0" by simp_all
    note body = assms [unfolded loop_body_show [OF Some w h]]
    show ?thesis
    proof (cases "adjust_timestamp_for_range
            (fst (display_interval (video_start_time cfg) f nxt has_next))
            (snd (display_interval (video_start_time cfg) f nxt has_next))
            (opt_ss cfg) (opt_to cfg)")
      case None
      with body have "evs' = evs" by simp
      then show ?thesis by (intro exI [of _ "[]"]) simp
    next
      case (Some se)
      obtain s e where se: "se = (s, e)" by (cases se)
      have s: "s = event_start cfg f"
        using adjust_timestamp_for_range_start [OF Some [unfolded se]]
        by (simp add: event_start_def fst_display_interval split: option.splits)
      show ?thesis
      proof (cases "e \<le> s \<or> \<not> save_bitmap_as_png (png_written cfg) bm
                (output_dir cfg @ ''/'' @ generate_png_filename i (base_name cfg))")
        case True
        with body Some se have "evs' = evs" by auto
        then show ?thesis by (intro exI [of _ "[]"]) simp
      next
        case False
        with body Some se obtain tc_in tc_out where
          tc: "time_to_tc s (bdn_fps cfg) = Inr tc_in"
          and evs': "evs' = evs @ [\<lparr>in_tc = tc_in, out_tc = tc_out,
                         png_file = generate_png_filename i (base_name cfg),
                         ev_x = pos_x f, ev_y = pos_y f,
                         ev_width = bm_width bm, ev_height = bm_height bm\<rparr>]"
          by (auto simp: and_then_def split: sum.splits)
        show ?thesis
          using tc evs' \<open>bitmap f = Some bm\<close> unfolding s
          by (intro exI [of _ "[f]"]) simp
      qed
    qed
  qed
qed

lemma subseq_sorted:
  fixes ys :: "'a :: linorder list"
  assumes "subseq xs ys" and "sorted ys"
  shows "sorted xs"
  using assms
proof (induction rule: list_emb.induct)
  case (list_emb_Nil ys)
  then show ?case by simp
next
  case (list_emb_Cons xs ys y)
  then show ?case by simp
next
  case (list_emb_Cons2 x y xs ys)
  have "set xs \<subseteq> set ys"
  proof
    fix z assume "z \<in> set xs"
    with list_emb_Cons2(2) obtain z' where "z' \<in> set ys" "z = z'" by (rule list_emb_set)
    then show "z \<in> set ys" by simp
  qed
  with list_emb_Cons2 show ?case by auto
qed


text \<open>The starts of the events the loop appends are the timecodes of the starts of frames
  with a bitmap, taken in the order in which the loop reads them.\<close>

lemma main_loop_in_tc:
  assumes "main_loop cfg cur nxt has_next source st = Inr st'"
  shows "\<exists>fs. subseq fs (filter (\<lambda>f. bitmap f \<noteq> None) (cur # nxt # source))
    \<and> map (\<lambda>e. Inr (in_tc e)) (fst st') =
        map (\<lambda>e. Inr (in_tc e)) (fst st)
        @ map (\<lambda>f. time_to_tc (event_start cfg f) (bdn_fps cfg)) fs"
  using assms
proof (induction cfg cur nxt has_next source st arbitrary: st' rule: main_loop.induct)
  case (1 cfg cur nxt has_next source st)
  let ?P = "\<lambda>f. bitmap f \<noteq> None"
  let ?tc = "\<lambda>f. time_to_tc (event_start cfg f) (bdn_fps cfg)"
  let ?in = "\<lambda>e. Inr (in_tc e) :: error + string"
  from "1.prems" obtain st1 where lb: "loop_body cfg cur nxt has_next st = Inr st1"
    by (subst (asm) main_loop.simps) (auto split: sum.splits)
  obtain has_next' nxt' source' where
    gn: "get_next_subtitle_frame source = (has_next', nxt', source')"
    by (cases "get_next_subtitle_frame source") auto
  from lb have "loop_body cfg cur nxt has_next (fst st, snd st) = Inr (fst st1, snd st1)"
    by simp
  from loop_body_in_tc [OF this] obtain fs1 where
    fs1: "fs1 = [] \<or> fs1 = [cur] \<and> bitmap cur \<noteq> None"
    and m1: "map ?in (fst st1) = map ?in (fst st) @ map ?tc fs1"
    by blast
  have sub1: "subseq fs1 (filter ?P [cur])" using fs1 by auto
  have split: "filter ?P (cur # nxt # source) = filter ?P [cur] @ filter ?P (nxt # source)"
    by simp
  show ?case
  proof (cases "bitmap nxt \<noteq> None \<or> has_next'")
    case True
    with "1.prems" lb gn have rec: "main_loop cfg nxt nxt' has_next' source' st1 = Inr st'"
      by (subst (asm) main_loop.simps) simp
    from "1.IH" [OF lb gn [symmetric] refl True rec] obtain fs2 where
      sub2: "subseq fs2 (filter ?P (nxt # nxt' # source'))"
      and m2: "map ?in (fst st') = map ?in (fst st1) @ map ?tc fs2"
      by blast
    have "filter ?P (nxt # nxt' # source') = filter ?P (nxt # source)"
      using gn by (cases source) (auto simp: empty_frame_def)
    with sub2 have "subseq fs2 (filter ?P (nxt # source))" by simp
    with sub1 have "subseq (fs1 @ fs2) (filter ?P (cur # nxt # source))"
      unfolding split by (rule list_emb_append_mono)
    moreover have "map ?in (fst st') = map ?in (fst st) @ map ?tc (fs1 @ fs2)"
      using m1 m2 by simp
    ultimately show ?thesis by blast
  next
    case False
    with "1.prems" lb gn have "st' = st1"
      by (subst (asm) main_loop.simps) simp
    moreover have "subseq (fs1 @ []) (filter ?P (cur # nxt # source))"
      unfolding split using sub1 by (rule list_emb_append_mono) simp
    ultimately show ?thesis using m1 by auto
  qed
qed

lemma main_events_in_tc:
  assumes "main_events cfg frames = Inr evs"
  shows "\<exists>fs. subseq fs frames
    \<and> map (\<lambda>e. Inr (in_tc e)) evs = map (\<lambda>f. time_to_tc (event_start cfg f) (bdn_fps cfg)) fs"
proof (cases frames)
  case Nil
  with assms have "evs = []" by (simp add: main_events_def)
  then show ?thesis by (intro exI [of _ "[]"]) simp
next
  case (Cons f rest)
  let ?P = "\<lambda>f. bitmap f \<noteq> None"
  obtain has_next nxt rest' where gn: "get_next_subtitle_frame rest = (has_next, nxt, rest')"
    by (cases "get_next_subtitle_frame rest") auto
  with assms Cons obtain idx where
    loop: "main_loop cfg f nxt has_next rest' ([], 0) = Inr (evs, idx)"
    by (auto simp: main_events_def and_then_def split: sum.splits)
  from main_loop_in_tc [OF loop] obtain fs where
    sub: "subseq fs (filter ?P (f # nxt # rest'))"
    and m: "map (\<lambda>e. Inr (in_tc e)) evs = map (\<lambda>f. time_to_tc (event_start cfg f) (bdn_fps cfg)) fs"
    by auto
  have "filter ?P (f # nxt # rest') = filter ?P (f # rest)"
    using gn by (cases rest) (auto simp: empty_frame_def)
  with sub have "subseq fs (filter ?P frames)" using Cons by simp
  moreover have "subseq (filter ?P frames) frames" by simp
  ultimately have "subseq fs frames" by (rule subseq_order.order_trans)
  with m show ?thesis by blast
qed

lemma c_round_mono: "x \<le> y \<Longrightarrow> c_round x \<le> c_round y"
proof -
  assume xy: "x \<le> y"
  consider "0 \<le> x" | "x < 0" "0 \<le> y" | "y < 0" using xy by linarith
  then show ?thesis
  proof cases
    case 1
    then have "0 \<le> y" using xy by simp
    with 1 xy show ?thesis by (simp add: c_round_def floor_mono)
  next
    case 2
    have "\<lceil>x - 1 / 2\<rceil> \<le> 0" using 2(1) by (simp add: ceiling_le_iff)
    moreover have "0 \<le> \<lfloor>y + 1 / 2\<rfloor>" using 2(2) by (simp add: le_floor_iff)
    ultimately have "\<lceil>x - 1 / 2\<rceil> \<le> \<lfloor>y + 1 / 2\<rfloor>" by linarith
    moreover have "c_round x = of_int \<lceil>x - 1 / 2\<rceil>" using 2(1) by (simp add: c_round_def)
    moreover have "c_round y = of_int \<lfloor>y + 1 / 2\<rfloor>" using 2(2) by (simp add: c_round_def)
    ultimately show ?thesis by (simp only: of_int_le_iff)
  next
    case 3
    then have "x < 0" using xy by simp
    with 3 xy show ?thesis by (simp add: c_round_def ceiling_mono)
  qed
qed

lemma sorted_map_mono:
  fixes k :: "'a \<Rightarrow> 'b :: linorder" and g :: "'a \<Rightarrow> 'c :: linorder"
  assumes "sorted (map k xs)" and "\<And>a b. k a \<le> k b \<Longrightarrow> g a \<le> g b"
  shows "sorted (map g xs)"
  using assms(1) by (induction xs) (auto intro: assms(2))


text \<open>
  C8, amended. The events are in decode order: their starts are the timecodes of the starts
  of a subsequence of the frames of the stream, in the order of the stream, and nothing is
  reordered. Whenever the display starts of the frames (the start of the display times
  where they are usable, the timestamp elsewhere) do not decrease along the stream, the
  start times of the events do not decrease, and for a frame rate that is not negative
  neither do their frame counts: the subtractions, the product with the frame rate and the
  rounding are monotone in \<^verbatim>\<open>double\<close>.
\<close>

theorem events_in_decode_order:
  assumes "main_events cfg frames = Inr evs"
  shows "\<exists>fs. subseq fs frames
    \<and> map (\<lambda>e. Inr (in_tc e)) evs = map (\<lambda>f. time_to_tc (event_start cfg f) (bdn_fps cfg)) fs
    \<and> (sorted (map frame_start frames) \<longrightarrow>
         sorted (map (event_start cfg) fs)
         \<and> (0 \<le> bdn_fps cfg \<longrightarrow>
              sorted (map (\<lambda>f. c_round (dmul (max 0 (event_start cfg f)) (bdn_fps cfg))) fs)))"
proof -
  from main_events_in_tc [OF assms] obtain fs where
    sub: "subseq fs frames"
    and m: "map (\<lambda>e. Inr (in_tc e)) evs = map (\<lambda>f. time_to_tc (event_start cfg f) (bdn_fps cfg)) fs"
    by blast
  have order: "sorted (map (event_start cfg) fs)
         \<and> (0 \<le> bdn_fps cfg \<longrightarrow>
              sorted (map (\<lambda>f. c_round (dmul (max 0 (event_start cfg f)) (bdn_fps cfg))) fs))"
    if "sorted (map frame_start frames)"
  proof -
    have "subseq (map frame_start fs) (map frame_start frames)" using sub by (rule subseq_map)
    then have s0: "sorted (map frame_start fs)" using that by (rule subseq_sorted)
    have s1: "sorted (map (event_start cfg) fs)"
      using s0
      by (rule sorted_map_mono)
        (auto simp: event_start_def adjust_timestamp_def intro!: dsub_mono split: option.splits)
    have "sorted (map (\<lambda>f. c_round (dmul (max 0 (event_start cfg f)) (bdn_fps cfg))) fs)"
      if "0 \<le> bdn_fps cfg"
      using s1
    proof (rule sorted_map_mono)
      fix a b assume "event_start cfg a \<le> event_start cfg b"
      then have "max 0 (event_start cfg a) \<le> max 0 (event_start cfg b)" by simp
      then have "dmul (max 0 (event_start cfg a)) (bdn_fps cfg)
          \<le> dmul (max 0 (event_start cfg b)) (bdn_fps cfg)"
        using that by (rule dmul_mono)
      then show "c_round (dmul (max 0 (event_start cfg a)) (bdn_fps cfg))
          \<le> c_round (dmul (max 0 (event_start cfg b)) (bdn_fps cfg))"
        by (rule c_round_mono)
    qed
    with s1 show ?thesis by simp
  qed
  from sub m order show ?thesis by blast
qed


theorem events_in_decode_order_witness:
  "main_events example_settings
     [show_frame 90000 0xFFFFFFFF 0xFFFFFFFF, clear_frame 180000, show_frame 450000 0 3000,
      clear_frame 540000] =
     Inr [\<lparr>in_tc = ''00:00:01:00'', out_tc = ''00:00:02:00'', png_file = ''sub00000.png'',
           ev_x = 100, ev_y = 200, ev_width = 1, ev_height = 1\<rparr>,
          \<lparr>in_tc = ''00:00:05:00'', out_tc = ''00:00:08:00'', png_file = ''sub00001.png'',
           ev_x = 100, ev_y = 200, ev_width = 1, ev_height = 1\<rparr>]
   \<and> sorted (map frame_start
        [show_frame 90000 0xFFFFFFFF 0xFFFFFFFF, clear_frame 180000, show_frame 450000 0 3000,
         clear_frame 540000])
   \<and> 0 \<le> bdn_fps example_settings
   \<and> (\<exists>fs. subseq fs
          [show_frame 90000 0xFFFFFFFF 0xFFFFFFFF, clear_frame 180000, show_frame 450000 0 3000,
           clear_frame 540000]
        \<and> map (\<lambda>e. Inr (in_tc e))
            [\<lparr>in_tc = ''00:00:01:00'', out_tc = ''00:00:02:00'', png_file = ''sub00000.png'',
              ev_x = 100, ev_y = 200, ev_width = 1, ev_height = 1\<rparr>,
             \<lparr>in_tc = ''00:00:05:00'', out_tc = ''00:00:08:00'', png_file = ''sub00001.png'',
              ev_x = 100, ev_y = 200, ev_width = 1, ev_height = 1\<rparr>] =
           map (\<lambda>f. time_to_tc (event_start example_settings f) (bdn_fps example_settings)) fs
        \<and> sorted (map (event_start example_settings) fs)
        \<and> sorted (map (\<lambda>f. c_round (dmul (max 0 (event_start example_settings f))
                    (bdn_fps example_settings))) fs))"
proof -
  have ev: "main_events example_settings
     [show_frame 90000 0xFFFFFFFF 0xFFFFFFFF, clear_frame 180000, show_frame 450000 0 3000,
      clear_frame 540000] =
     Inr [\<lparr>in_tc = ''00:00:01:00'', out_tc = ''00:00:02:00'', png_file = ''sub00000.png'',
           ev_x = 100, ev_y = 200, ev_width = 1, ev_height = 1\<rparr>,
          \<lparr>in_tc = ''00:00:05:00'', out_tc = ''00:00:08:00'', png_file = ''sub00001.png'',
           ev_x = 100, ev_y = 200, ev_width = 1, ev_height = 1\<rparr>]"
    by (simp add: example_frames loop_eval example_settings_fields example_bitmap_fields
        example_save png_names time_to_tc_30)
  have srt: "sorted (map frame_start
        [show_frame 90000 0xFFFFFFFF 0xFFFFFFFF, clear_frame 180000, show_frame 450000 0 3000,
         clear_frame 540000])"
    by (simp add: example_frames frame_start_def display_times_usable_def)
  have fps: "0 \<le> bdn_fps example_settings" by (simp add: example_settings_fields)
  from events_in_decode_order [OF ev] srt fps show ?thesis
    unfolding ev by blast
qed

section \<open>Properties of the compositor\<close>

lemma blend_pixel_length [simp]: "length (blend_pixel data offset src) = length data"
  by (cases src) (simp add: blend_pixel_def Let_def)

lemma blend_pixel_at:
  assumes "offset + 3 < length data"
  shows "pixel_at (blend_pixel data offset src) offset = composite_rule src (pixel_at data offset)"
proof -
  obtain r g b a where src: "src = (r, g, b, a)" by (cases src)
  show ?thesis
    using assms unfolding src
    by (simp add: blend_pixel_def pixel_at_def composite_rule_def overwrite_or_blend_def
        blend_channel_def blend_alpha_def Let_def word_gt_0)
qed

lemma blend_pixel_other:
  assumes "i < offset \<or> offset + 3 < i"
  shows "blend_pixel data offset src ! i = data ! i"
proof -
  obtain r g b a where src: "src = (r, g, b, a)" by (cases src)
  show ?thesis
    using assms unfolding src by (auto simp: blend_pixel_def Let_def)
qed

lemma blend_pixel_other_pixel:
  assumes "offset' + 3 < offset \<or> offset + 3 < offset'"
  shows "pixel_at (blend_pixel data offset src) offset' = pixel_at data offset'"
  using assms by (auto simp: pixel_at_def blend_pixel_other)


subsection \<open>Offsets of the pixels of the composite bitmap\<close>

lemma pixel_index_bound:
  fixes W H cx cy :: int
  assumes "0 \<le> cx" "cx < W" "0 \<le> cy" "cy < H"
  shows "0 \<le> cy * W + cx" and "cy * W + cx < W * H"
proof -
  have W: "0 < W" using assms(1,2) by simp
  show "0 \<le> cy * W + cx" using assms(1,3) W by simp
  have "cy + 1 \<le> H" using assms(4) by simp
  then have "(cy + 1) * W \<le> H * W" using W by (intro mult_right_mono) simp_all
  then show "cy * W + cx < W * H" using assms(2) by (simp add: algebra_simps)
qed

lemma nat_times_4_bound:
  fixes k m :: int
  shows "0 \<le> k \<Longrightarrow> k < m \<Longrightarrow> nat (k * 4) + 3 < nat (m * 4)"
  by arith

lemma nat_times_4_apart:
  fixes k k' :: int
  shows "0 \<le> k \<Longrightarrow> 0 \<le> k' \<Longrightarrow> k \<noteq> k'
    \<Longrightarrow> nat (k' * 4) + 3 < nat (k * 4) \<or> nat (k * 4) + 3 < nat (k' * 4)"
  by arith

lemma pixel_offset_in_data:
  fixes W H cx cy :: int
  assumes "0 \<le> cx" "cx < W" "0 \<le> cy" "cy < H"
  shows "pixel_offset W cx cy + 3 < nat (W * H * 4)"
  unfolding pixel_offset_def using pixel_index_bound [OF assms] by (rule nat_times_4_bound)

lemma pixel_index_inj:
  fixes W cx cy cx' cy' :: int
  assumes "0 \<le> cx" "cx < W" "0 \<le> cx'" "cx' < W"
    and "cy * W + cx = cy' * W + cx'"
  shows "cx = cx' \<and> cy = cy'"
proof -
  have W: "0 < W" using assms(1,2) by simp
  have "cy = cy'"
  proof (rule ccontr)
    assume ne: "cy \<noteq> cy'"
    consider "cy + 1 \<le> cy'" | "cy' + 1 \<le> cy" using ne by linarith
    then show False
    proof cases
      case 1
      then have "(cy + 1) * W \<le> cy' * W" using W by (intro mult_right_mono) simp_all
      then show False using assms by (simp add: algebra_simps)
    next
      case 2
      then have "(cy' + 1) * W \<le> cy * W" using W by (intro mult_right_mono) simp_all
      then show False using assms by (simp add: algebra_simps)
    qed
  qed
  then show ?thesis using assms(5) by simp
qed

lemma pixel_offset_apart:
  fixes W cx cy cx' cy' :: int
  assumes "0 \<le> cx" "cx < W" "0 \<le> cy" "0 \<le> cx'" "cx' < W" "0 \<le> cy'"
    and "cx \<noteq> cx' \<or> cy \<noteq> cy'"
  shows "pixel_offset W cx' cy' + 3 < pixel_offset W cx cy
    \<or> pixel_offset W cx cy + 3 < pixel_offset W cx' cy'"
proof -
  have ne: "cy * W + cx \<noteq> cy' * W + cx'"
    using pixel_index_inj [OF assms(1,2,4,5)] assms(7) by blast
  have "0 < W" using assms(1,2) by simp
  then have nn: "0 \<le> cy * W + cx" "0 \<le> cy' * W + cx'" using assms(1,3,4,6) by simp_all
  show ?thesis unfolding pixel_offset_def using nn ne by (rule nat_times_4_apart)
qed

subsection \<open>One source pixel, one row, one rectangle\<close>

lemma draw_pixel_length [simp]:
  "length (draw_pixel indices palette linesize dest_x dest_y W H y x data) = length data"
  by (simp add: draw_pixel_def Let_def)

lemma draw_pixel_eq:
  "draw_pixel indices palette linesize dest_x dest_y W H y x data =
     (if 0 \<le> dest_x + x \<and> dest_x + x < W \<and> 0 \<le> dest_y + y \<and> dest_y + y < H
      then blend_pixel data (pixel_offset W (dest_x + x) (dest_y + y))
             (argb_to_rgba (palette (indices (y * linesize + x))))
      else data)"
  unfolding draw_pixel_def pixel_offset_def Let_def by (rule refl)

lemma draw_pixel_at:
  assumes len: "length data = nat (W * H * 4)"
    and c: "0 \<le> cx" "cx < W" "0 \<le> cy" "cy < H"
  shows "pixel_at (draw_pixel indices palette linesize dest_x dest_y W H y x data)
           (pixel_offset W cx cy) =
    (if dest_x + x = cx \<and> dest_y + y = cy
     then composite_rule (argb_to_rgba (palette (indices (y * linesize + x))))
            (pixel_at data (pixel_offset W cx cy))
     else pixel_at data (pixel_offset W cx cy))"
proof (cases "dest_x + x = cx \<and> dest_y + y = cy")
  case True
  have "pixel_offset W cx cy + 3 < length data"
    unfolding len by (rule pixel_offset_in_data [OF c])
  then show ?thesis
    using True c by (simp add: draw_pixel_eq blend_pixel_at)
next
  case ne: False
  show ?thesis
  proof (cases "0 \<le> dest_x + x \<and> dest_x + x < W \<and> 0 \<le> dest_y + y \<and> dest_y + y < H")
    case inb: True
    have "pixel_offset W cx cy + 3 < pixel_offset W (dest_x + x) (dest_y + y)
      \<or> pixel_offset W (dest_x + x) (dest_y + y) + 3 < pixel_offset W cx cy"
      using pixel_offset_apart [of "dest_x + x" W "dest_y + y" cx cy] inb c ne by blast
    then have "pixel_at (blend_pixel data (pixel_offset W (dest_x + x) (dest_y + y))
        (argb_to_rgba (palette (indices (y * linesize + x))))) (pixel_offset W cx cy)
      = pixel_at data (pixel_offset W cx cy)"
      by (rule blend_pixel_other_pixel)
    moreover have "draw_pixel indices palette linesize dest_x dest_y W H y x data =
        blend_pixel data (pixel_offset W (dest_x + x) (dest_y + y))
          (argb_to_rgba (palette (indices (y * linesize + x))))"
      unfolding draw_pixel_eq using inb by (rule if_P)
    ultimately show ?thesis unfolding if_not_P [OF ne] by simp
  next
    case outb: False
    then have "draw_pixel indices palette linesize dest_x dest_y W H y x data = data"
      unfolding draw_pixel_eq by (rule if_not_P)
    then show ?thesis unfolding if_not_P [OF ne] by simp
  qed
qed

lemma draw_columns_length:
  "length (foldl (\<lambda>d x. draw_pixel indices palette linesize dest_x dest_y W H y (int x) d)
      data xs) = length data"
  by (induction xs arbitrary: data) simp_all

lemma draw_row_length [simp]:
  "length (draw_row indices palette linesize w dest_x dest_y W H y data) = length data"
  by (simp add: draw_row_def draw_columns_length)

lemma draw_columns_at:
  assumes len: "length data = nat (W * H * 4)"
    and c: "0 \<le> cx" "cx < W" "0 \<le> cy" "cy < H"
  shows "pixel_at (foldl (\<lambda>d x. draw_pixel indices palette linesize dest_x dest_y W H y (int x) d)
            data [0..<n]) (pixel_offset W cx cy) =
    (if dest_y + y = cy \<and> dest_x \<le> cx \<and> cx < dest_x + int n
     then composite_rule (argb_to_rgba (palette (indices (y * linesize + (cx - dest_x)))))
            (pixel_at data (pixel_offset W cx cy))
     else pixel_at data (pixel_offset W cx cy))"
proof (induction n)
  case 0
  then show ?case by auto
next
  case (Suc n)
  let ?f = "\<lambda>d x. draw_pixel indices palette linesize dest_x dest_y W H y (int x) d"
  let ?d = "foldl ?f data [0..<n]"
  have lend: "length ?d = nat (W * H * 4)" using len by (simp add: draw_columns_length)
  have step: "foldl ?f data [0..<Suc n] = ?f ?d n" by simp
  have eq: "dest_x + int n = cx \<Longrightarrow> int n = cx - dest_x" by simp
  show ?case
    unfolding step draw_pixel_at [OF lend c] Suc.IH
    by (auto dest: eq)
qed

lemma draw_row_at:
  assumes len: "length data = nat (W * H * 4)"
    and c: "0 \<le> cx" "cx < W" "0 \<le> cy" "cy < H"
  shows "pixel_at (draw_row indices palette linesize w dest_x dest_y W H y data)
           (pixel_offset W cx cy) =
    (if dest_y + y = cy \<and> dest_x \<le> cx \<and> cx < dest_x + w
     then composite_rule (argb_to_rgba (palette (indices (y * linesize + (cx - dest_x)))))
            (pixel_at data (pixel_offset W cx cy))
     else pixel_at data (pixel_offset W cx cy))"
  unfolding draw_row_def draw_columns_at [OF len c] by auto

lemma draw_rows_length:
  "length (foldl (\<lambda>d y. draw_row indices palette linesize w dest_x dest_y W H (int y) d)
      data ys) = length data"
  by (induction ys arbitrary: data) simp_all

lemma draw_rows_at:
  assumes len: "length data = nat (W * H * 4)"
    and c: "0 \<le> cx" "cx < W" "0 \<le> cy" "cy < H"
  shows "pixel_at (foldl (\<lambda>d y. draw_row indices palette linesize w dest_x dest_y W H (int y) d)
            data [0..<n]) (pixel_offset W cx cy) =
    (if dest_y \<le> cy \<and> cy < dest_y + int n \<and> dest_x \<le> cx \<and> cx < dest_x + w
     then composite_rule
            (argb_to_rgba (palette (indices ((cy - dest_y) * linesize + (cx - dest_x)))))
            (pixel_at data (pixel_offset W cx cy))
     else pixel_at data (pixel_offset W cx cy))"
proof (induction n)
  case 0
  then show ?case by auto
next
  case (Suc n)
  let ?f = "\<lambda>d y. draw_row indices palette linesize w dest_x dest_y W H (int y) d"
  let ?d = "foldl ?f data [0..<n]"
  have lend: "length ?d = nat (W * H * 4)" using len by (simp add: draw_rows_length)
  have step: "foldl ?f data [0..<Suc n] = ?f ?d n" by simp
  have eq: "dest_y + int n = cy \<Longrightarrow> int n = cy - dest_y" by simp
  show ?case
    unfolding step draw_row_at [OF lend c] Suc.IH
    by (auto dest: eq)
qed


text \<open>
  C7 as stated fails: a source pixel with alpha 0 is not drawn at all. Over a transparent
  destination the rule of the specification stores the source pixel, here
  \<open>(255, 0, 0, 0)\<close>; the code leaves the destination \<open>(0, 0, 0, 0)\<close> as it is.
\<close>

theorem transparent_source_counterexample:
  "pixel_at (blend_pixel [0, 0, 0, 0] 0 (255, 0, 0, 0)) 0 = (0, 0, 0, 0)
   \<and> overwrite_or_blend (255, 0, 0, 0) (pixel_at [0, 0, 0, 0] 0) = (255, 0, 0, 0)
   \<and> pixel_at (draw_rect (\<lambda>i. 0) (\<lambda>c. 0x00FF0000) 1 1 1 0 0 1 1 [0, 0, 0, 0]) (pixel_offset 1 0 0)
       = (0, 0, 0, 0)"
  by (simp add: blend_pixel_def pixel_at_def overwrite_or_blend_def draw_rect_def draw_row_def
      draw_pixel_def argb_to_rgba_def pixel_offset_def)

text \<open>
  C7, amended. Compositing a rectangle into the composite bitmap follows this rule for
  every source pixel: a source pixel with alpha 0 leaves the destination pixel as it is; a
  source pixel with alpha 255, or any source pixel with non-zero alpha over a destination
  pixel with alpha 0, overwrites the destination pixel with the exact source RGBA;
  otherwise every colour channel becomes \<open>src * a + dst * (1 - a)\<close> and the alpha channel
  \<open>src.a + dst.a * (1 - a)\<close> with \<open>a = src.a / 255\<close>, computed in \<^verbatim>\<open>float\<close> and truncated to a
  byte. Every pixel of the bitmap outside the footprint of the rectangle keeps its value.
\<close>

theorem compositing_rule:
  assumes "length data = nat (composite_width * composite_height * 4)"
    and "0 \<le> cx" and "cx < composite_width" and "0 \<le> cy" and "cy < composite_height"
  shows "pixel_at (draw_rect indices palette linesize w h dest_x dest_y
                     composite_width composite_height data)
           (pixel_offset composite_width cx cy) =
    (if dest_x \<le> cx \<and> cx < dest_x + w \<and> dest_y \<le> cy \<and> cy < dest_y + h
     then composite_rule
            (argb_to_rgba (palette (indices ((cy - dest_y) * linesize + (cx - dest_x)))))
            (pixel_at data (pixel_offset composite_width cx cy))
     else pixel_at data (pixel_offset composite_width cx cy))"
  unfolding draw_rect_def draw_rows_at [OF assms] by auto

lemma alpha_128:
  "fdiv (u8_to_float 128) 255 = 8421505 / 16777216"
  "fsub 1 (8421505 / 16777216) = 8355711 / 16777216"
  by (simp_all add: fdiv_def fsub_def u8_to_float_def float_round_def binade.simps
      round_half_even_def Let_def)

lemma blend_example:
  "blend_channel 255 128 10 = 132"
  "blend_channel 0 128 20 = 9"
  "blend_channel 100 128 30 = 65"
  "blend_alpha 128 200 = 227"
  unfolding blend_channel_def blend_alpha_def alpha_128
  by (simp_all add: fmul_def fadd_def u8_to_float_def float_to_u8_def float_round_def
      binade.simps round_half_even_def Let_def)

theorem compositing_rule_witness:
  "length [0, 0, 0, 0, 10, 20, 30, 200 :: 8 word] = nat (2 * 1 * 4)
   \<and> (0 :: int) \<le> 0 \<and> (0 :: int) < 2 \<and> (0 :: int) \<le> 1 \<and> (1 :: int) < 2 \<and> (0 :: int) < 1
   \<and> pixel_at (draw_rect (\<lambda>i. 7) (\<lambda>c. 0x80FF0064) 2 2 1 0 0 2 1
                  [0, 0, 0, 0, 10, 20, 30, 200]) (pixel_offset 2 0 0) = (255, 0, 100, 128)
   \<and> pixel_at (draw_rect (\<lambda>i. 7) (\<lambda>c. 0x80FF0064) 2 2 1 0 0 2 1
                  [0, 0, 0, 0, 10, 20, 30, 200]) (pixel_offset 2 1 0) = (132, 9, 65, 227)"
proof -
  have len: "length [0, 0, 0, 0, 10, 20, 30, 200 :: 8 word] = nat (2 * 1 * 4)" by simp
  have src: "argb_to_rgba 0x80FF0064 = (255, 0, 100, 128)" by (simp add: argb_to_rgba_def)
  have p0: "pixel_at [0, 0, 0, 0, 10, 20, 30, 200] (pixel_offset 2 0 0) = (0, 0, 0, 0)"
    and p1: "pixel_at [0, 0, 0, 0, 10, 20, 30, 200] (pixel_offset 2 1 0) = (10, 20, 30, 200)"
    by (simp_all add: pixel_at_def pixel_offset_def)
  have "pixel_at (draw_rect (\<lambda>i. 7) (\<lambda>c. 0x80FF0064) 2 2 1 0 0 2 1
                  [0, 0, 0, 0, 10, 20, 30, 200]) (pixel_offset 2 0 0) = (255, 0, 100, 128)"
    using compositing_rule [OF len, of 0 0, where indices = "\<lambda>i. 7"
        and palette = "\<lambda>c. 0x80FF0064" and linesize = 2 and w = 2 and h = 1
        and dest_x = 0 and dest_y = 0]
    by (simp add: src p0 composite_rule_def overwrite_or_blend_def)
  moreover have "pixel_at (draw_rect (\<lambda>i. 7) (\<lambda>c. 0x80FF0064) 2 2 1 0 0 2 1
                  [0, 0, 0, 0, 10, 20, 30, 200]) (pixel_offset 2 1 0) = (132, 9, 65, 227)"
    using compositing_rule [OF len, of 1 0, where indices = "\<lambda>i. 7"
        and palette = "\<lambda>c. 0x80FF0064" and linesize = 2 and w = 2 and h = 1
        and dest_x = 0 and dest_y = 0]
    by (simp add: src p1 composite_rule_def overwrite_or_blend_def blend_example)
  ultimately show ?thesis by simp
qed

text \<open>A rectangle of negative width and positive height gives a negative length of the
  data, and the composite bitmap is not built.\<close>

lemma composite_bitmap_negative_size:
  "composite_bitmap
     [\<lparr>rect_x = 0, rect_y = 0, rect_w = - 2, rect_h = 3, rect_is_bitmap = True,
       rect_indices = None, rect_palette = None, rect_linesize = 0\<rparr>] = Inl LengthError"
proof -
  have w: "add_int 0 (- 2) = - 2" "add_int 0 3 = 3" "add_int (- 2) 0 = - 2"
    "add_int 3 0 = 3" "mul_int (mul_int (- 2) 3) 4 = - 24"
    by (simp_all add: add_int_def mul_int_def wrap32_def)
  show ?thesis
    unfolding composite_bitmap_def Let_def
    by (simp add: INT_MAX_def INT_MIN_def w)
qed

end
